theory Spec2Isabelle
  imports Main "HOL-Library.Multiset"
begin

section \<open>Python values, errors and built-ins used by \<open>eval_PLM.py\<close>\<close>

text \<open>
  Exceptions are values: every operation that can raise returns \<open>error + 'a\<close>, with
  \<open>Inl\<close> the exception. \<open>ModelFailure\<close> stands for any failure inside the wrapped model.
\<close>

datatype error =
    TypeError | StopIteration | ValueError | IndexError | KeyError
  | NameError | RuntimeError | OSError | ModelFailure

text \<open>
  The items of \<open>sentences\<close> are dynamically typed. A \<open>str\<close> is the list of its characters,
  a list or tuple is \<open>PyList\<close>, a dict is an association list in insertion order.
\<close>

datatype pyval =
    PyNone
  | PyBool bool
  | PyInt int
  | PyStr string
  | PyList "pyval list"
  | PyDict "(pyval \<times> pyval) list"

fun truthy :: "pyval \<Rightarrow> bool" where
  "truthy PyNone = False"
| "truthy (PyBool b) = b"
| "truthy (PyInt n) = (n \<noteq> 0)"
| "truthy (PyStr s) = (s \<noteq> [])"
| "truthy (PyList xs) = (xs \<noteq> [])"
| "truthy (PyDict kvs) = (kvs \<noteq> [])"

fun isinstance_dict :: "pyval \<Rightarrow> bool" where
  "isinstance_dict (PyDict kvs) = True"
| "isinstance_dict v = False"

text \<open>\<open>bool\<close> is a subclass of \<open>int\<close> in Python.\<close>

fun isinstance_int :: "pyval \<Rightarrow> bool" where
  "isinstance_int (PyInt n) = True"
| "isinstance_int (PyBool b) = True"
| "isinstance_int v = False"

fun hasattr_len :: "pyval \<Rightarrow> bool" where
  "hasattr_len (PyStr s) = True"
| "hasattr_len (PyList xs) = True"
| "hasattr_len (PyDict kvs) = True"
| "hasattr_len v = False"

fun py_len :: "pyval \<Rightarrow> error + nat" where
  "py_len (PyStr s) = Inr (length s)"
| "py_len (PyList xs) = Inr (length xs)"
| "py_len (PyDict kvs) = Inr (length kvs)"
| "py_len v = Inl TypeError"

text \<open>\<open>text.values()\<close>, only reached for a dict.\<close>

fun dict_values :: "pyval \<Rightarrow> pyval list" where
  "dict_values (PyDict kvs) = map snd kvs"
| "dict_values v = []"

text \<open>\<open>text[0]\<close>: the first character of a string is itself a string.\<close>

fun getitem0 :: "pyval \<Rightarrow> error + pyval" where
  "getitem0 (PyStr s) = (case s of [] \<Rightarrow> Inl IndexError | c # cs \<Rightarrow> Inr (PyStr [c]))"
| "getitem0 (PyList xs) = (case xs of [] \<Rightarrow> Inl IndexError | x # ys \<Rightarrow> Inr x)"
| "getitem0 (PyDict kvs) = (case map_of kvs (PyInt 0) of None \<Rightarrow> Inl KeyError | Some v \<Rightarrow> Inr v)"
| "getitem0 v = Inl TypeError"

text \<open>Iteration (\<open>for t in text\<close>): characters of a string, elements of a list, keys of a dict.\<close>

fun py_iter :: "pyval \<Rightarrow> error + pyval list" where
  "py_iter (PyStr s) = Inr (map (\<lambda>c. PyStr [c]) s)"
| "py_iter (PyList xs) = Inr xs"
| "py_iter (PyDict kvs) = Inr (map fst kvs)"
| "py_iter v = Inl TypeError"

text \<open>A list comprehension \<open>[f(x) for x in xs]\<close>: the first exception aborts it.\<close>

fun map_result :: "('a \<Rightarrow> error + 'b) \<Rightarrow> 'a list \<Rightarrow> error + 'b list" where
  "map_result f [] = Inr []"
| "map_result f (x # xs) =
     (case f x of
        Inl e \<Rightarrow> Inl e
      | Inr y \<Rightarrow> (case map_result f xs of Inl e \<Rightarrow> Inl e | Inr ys \<Rightarrow> Inr (y # ys)))"

text \<open>\<open>xs[i]\<close> for a non-negative index, as produced by \<open>np.argsort\<close>.\<close>

definition py_getitem :: "'a list \<Rightarrow> nat \<Rightarrow> error + 'a" where
  "py_getitem xs i = (if i < length xs then Inr (xs ! i) else Inl IndexError)"

text \<open>\<open>range(0, n, step)\<close> for \<open>n = len(sentences)\<close>: a zero step raises, a negative one is empty.\<close>

definition py_range0 :: "nat \<Rightarrow> int \<Rightarrow> error + nat list" where
  "py_range0 n step =
     (if step = 0 then Inl ValueError
      else if step < 0 then Inr []
      else Inr (map (\<lambda>k. k * nat step) [0..<(n + nat step - 1) div nat step]))"

text \<open>\<open>xs[start:stop]\<close> with \<open>start \<ge> 0\<close>: a negative \<open>stop\<close> counts from the end, and
  both ends are clamped to the list.\<close>

definition py_slice :: "'a list \<Rightarrow> nat \<Rightarrow> int \<Rightarrow> 'a list" where
  "py_slice xs start stop =
     (let e = (if stop < 0 then max 0 (stop + int (length xs)) else stop)
      in take (nat e - start) (drop start xs))"

subsection \<open>Library calls\<close>

text \<open>
  \<open>np.argsort\<close> is called with its default \<open>kind\<close> (quicksort), which NumPy documents as
  not stable. It is a parameter \<open>argsort\<close> of the model; all that is assumed of it is
  NumPy's contract: the result is a permutation of the positions that lists the keys in
  ascending order.
\<close>

definition argsort_ok :: "(nat list \<Rightarrow> nat list) \<Rightarrow> bool" where
  "argsort_ok argsort \<longleftrightarrow>
     (\<forall>ks. distinct (argsort ks) \<and> set (argsort ks) = {0..<length ks}
           \<and> sorted (map (\<lambda>i. ks ! i) (argsort ks)))"

text \<open>A permutation of the positions, as \<open>length_sorted_idx\<close> is.\<close>

definition is_perm :: "nat list \<Rightarrow> nat \<Rightarrow> bool" where
  "is_perm idx n \<longleftrightarrow> distinct idx \<and> set idx = {0..<n}"

text \<open>Two functions that meet the contract: one keeps ties in input order, the other
  reverses them.\<close>

definition argsort_stable :: "nat list \<Rightarrow> nat list" where
  "argsort_stable ks = map snd (sort_key fst (zip ks [0..<length ks]))"

definition argsort_ties_reversed :: "nat list \<Rightarrow> nat list" where
  "argsort_ties_reversed ks = map snd (sort_key fst (rev (zip ks [0..<length ks])))"

text \<open>What \<open>encode\<close> returns: a stacked tensor, a NumPy array, or the plain list of rows.\<close>

datatype 'e encoded = Tensor "'e list" | NDArray "'e list" | RowList "'e list"

fun rows :: "'e encoded \<Rightarrow> 'e list" where
  "rows (Tensor es) = es"
| "rows (NDArray es) = es"
| "rows (RowList es) = es"

text \<open>\<open>torch.stack\<close> refuses an empty list of tensors.\<close>

definition torch_stack :: "'e list \<Rightarrow> error + 'e encoded" where
  "torch_stack es = (if es = [] then Inl RuntimeError else Inr (Tensor es))"

definition np_asarray :: "'e list \<Rightarrow> error + 'e encoded" where
  "np_asarray es = Inr (NDArray es)"

section \<open>\<open>WrappedHuggingfaceTransformer.encode\<close>\<close>

text \<open>Lines 31--39: the nested function \<open>_text_length\<close>.\<close>

definition WrappedHuggingfaceTransformer_text_length :: "pyval \<Rightarrow> error + nat" where
  "WrappedHuggingfaceTransformer_text_length text =
     (if isinstance_dict text then
        (case dict_values text of [] \<Rightarrow> Inl StopIteration | v # vs \<Rightarrow> py_len v)
      else if \<not> hasattr_len text then Inr 1
      else
        (case py_len text of
           Inl e \<Rightarrow> Inl e
         | Inr n \<Rightarrow>
             if n = 0 then Inr n
             else
               (case getitem0 text of
                  Inl e \<Rightarrow> Inl e
                | Inr x \<Rightarrow>
                    if isinstance_int x then Inr n
                    else
                      (case py_iter text of
                         Inl e \<Rightarrow> Inl e
                       | Inr ts \<Rightarrow>
                           (case map_result py_len ts of
                              Inl e \<Rightarrow> Inl e
                            | Inr ls \<Rightarrow> Inr (sum_list ls))))))"

text \<open>Lines 42--43: \<open>length_sorted_idx\<close> and \<open>sentences_sorted\<close>.\<close>

definition hf_sort_stage ::
  "(nat list \<Rightarrow> nat list) \<Rightarrow> pyval list \<Rightarrow> error + (nat list \<times> pyval list)" where
  "hf_sort_stage argsort sentences =
     (case map_result WrappedHuggingfaceTransformer_text_length sentences of
        Inl e \<Rightarrow> Inl e
      | Inr lens \<Rightarrow>
          (let length_sorted_idx = argsort lens in
           case map_result (py_getitem sentences) length_sorted_idx of
             Inl e \<Rightarrow> Inl e
           | Inr sentences_sorted \<Rightarrow> Inr (length_sorted_idx, sentences_sorted)))"

text \<open>
  Lines 45--48: the batch loop over the start indices. The primitive \<open>encode_text\<close> takes
  the batch and the keyword \<open>projection\<close>; the loop keeps the list of the calls it made
  (\<open>calls\<close>) beside \<open>all_embeddings\<close>.
\<close>

fun hf_batch_loop ::
  "(pyval list \<Rightarrow> bool \<Rightarrow> error + 'e list) \<Rightarrow> pyval list \<Rightarrow> int \<Rightarrow> nat list \<Rightarrow>
   (pyval list \<times> bool) list \<Rightarrow> 'e list \<Rightarrow> (pyval list \<times> bool) list \<times> (error + 'e list)" where
  "hf_batch_loop encode_text sentences_sorted batch_size [] calls all_embeddings =
     (calls, Inr all_embeddings)"
| "hf_batch_loop encode_text sentences_sorted batch_size (start_index # rest) calls all_embeddings =
     (let sentences_batch =
            py_slice sentences_sorted start_index (int start_index + batch_size)
      in case encode_text sentences_batch False of
           Inl e \<Rightarrow> (calls @ [(sentences_batch, False)], Inl e)
         | Inr embeddings \<Rightarrow>
             hf_batch_loop encode_text sentences_sorted batch_size rest
               (calls @ [(sentences_batch, False)]) (all_embeddings @ embeddings))"

text \<open>Lines 41--49: \<open>all_embeddings\<close> after the inverse permutation has been applied.\<close>

definition hf_all_embeddings ::
  "(nat list \<Rightarrow> nat list) \<Rightarrow> (pyval list \<Rightarrow> bool \<Rightarrow> error + 'e list) \<Rightarrow> pyval list \<Rightarrow> int \<Rightarrow>
   (pyval list \<times> bool) list \<times> (error + 'e list)" where
  "hf_all_embeddings argsort encode_text sentences batch_size =
     (case hf_sort_stage argsort sentences of
        Inl e \<Rightarrow> ([], Inl e)
      | Inr (length_sorted_idx, sentences_sorted) \<Rightarrow>
          (case py_range0 (length sentences) batch_size of
             Inl e \<Rightarrow> ([], Inl e)
           | Inr starts \<Rightarrow>
               (case hf_batch_loop encode_text sentences_sorted batch_size starts [] [] of
                  (calls, Inl e) \<Rightarrow> (calls, Inl e)
                | (calls, Inr all_embeddings) \<Rightarrow>
                    (calls, map_result (py_getitem all_embeddings) (argsort length_sorted_idx)))))"

text \<open>Lines 29--55: the whole method, with the conversion of lines 51--55.\<close>

definition WrappedHuggingfaceTransformer_encode ::
  "(nat list \<Rightarrow> nat list) \<Rightarrow> (pyval list \<Rightarrow> bool \<Rightarrow> error + 'e list) \<Rightarrow> pyval list \<Rightarrow> int \<Rightarrow>
   pyval \<Rightarrow> pyval \<Rightarrow> pyval \<Rightarrow> (pyval list \<times> bool) list \<times> (error + 'e encoded)" where
  "WrappedHuggingfaceTransformer_encode argsort encode_text sentences batch_size
       show_progress_bar convert_to_numpy convert_to_tensor =
     (case hf_all_embeddings argsort encode_text sentences batch_size of
        (calls, Inl e) \<Rightarrow> (calls, Inl e)
      | (calls, Inr all_embeddings) \<Rightarrow>
          (calls,
           if truthy convert_to_tensor then torch_stack all_embeddings
           else if truthy convert_to_numpy then np_asarray all_embeddings
           else Inr (RowList all_embeddings)))"

section \<open>\<open>WrappedOpenCLIPTransformer.encode\<close>\<close>

text \<open>
  The names bound in the module when \<open>encode\<close> runs: the imports of lines 1--13, the
  classes and functions, and the variables of the \<open>__main__\<close> block.
\<close>

definition module_globals :: "string list" where
  "module_globals =
     [''torch'', ''nn'', ''np'', ''pd'', ''logging'', ''sys'', ''nlp_eval'', ''parse_args'',
      ''open_clip'', ''AutoConfig'', ''AutoTokenizer'', ''AutoModel'', ''SentenceTransformer'',
      ''WrappedHuggingfaceTransformer'', ''mean_pooling'', ''WrappedOpenCLIPTransformer'',
      ''args'', ''num_workers'', ''model_name'', ''huggingface_transformers'',
      ''sentence_transformers'', ''open_clip_transformers'', ''model'']"

definition lookup_name :: "string list \<Rightarrow> string \<Rightarrow> error + unit" where
  "lookup_name names n = (if n \<in> set names then Inr () else Inl NameError)"

text \<open>Lines 98--106: the nested function \<open>_text_length\<close>.\<close>

definition WrappedOpenCLIPTransformer_text_length :: "pyval \<Rightarrow> error + nat" where
  "WrappedOpenCLIPTransformer_text_length text =
     (if isinstance_dict text then
        (case dict_values text of [] \<Rightarrow> Inl StopIteration | v # vs \<Rightarrow> py_len v)
      else if \<not> hasattr_len text then Inr 1
      else
        (case py_len text of
           Inl e \<Rightarrow> Inl e
         | Inr n \<Rightarrow>
             if n = 0 then Inr n
             else
               (case getitem0 text of
                  Inl e \<Rightarrow> Inl e
                | Inr x \<Rightarrow>
                    if isinstance_int x then Inr n
                    else
                      (case py_iter text of
                         Inl e \<Rightarrow> Inl e
                       | Inr ts \<Rightarrow>
                           (case map_result py_len ts of
                              Inl e \<Rightarrow> Inl e
                            | Inr ls \<Rightarrow> Inr (sum_list ls))))))"

text \<open>Lines 109--110.\<close>

definition clip_sort_stage ::
  "(nat list \<Rightarrow> nat list) \<Rightarrow> pyval list \<Rightarrow> error + (nat list \<times> pyval list)" where
  "clip_sort_stage argsort sentences =
     (case map_result WrappedOpenCLIPTransformer_text_length sentences of
        Inl e \<Rightarrow> Inl e
      | Inr lens \<Rightarrow>
          (let length_sorted_idx = argsort lens in
           case map_result (py_getitem sentences) length_sorted_idx of
             Inl e \<Rightarrow> Inl e
           | Inr sentences_sorted \<Rightarrow> Inr (length_sorted_idx, sentences_sorted)))"

text \<open>
  Line 112: the iterator. With a truthy \<open>show_progress_bar\<close> the name \<open>tqdm\<close> is looked
  up before \<open>range\<close> is evaluated; were it bound, the progress bar would yield the same
  start indices.
\<close>

definition clip_iterator :: "string list \<Rightarrow> pyval \<Rightarrow> nat \<Rightarrow> int \<Rightarrow> error + nat list" where
  "clip_iterator names show_progress_bar n batch_size =
     (if truthy show_progress_bar then
        (case lookup_name names ''tqdm'' of
           Inl e \<Rightarrow> Inl e
         | Inr u \<Rightarrow> py_range0 n batch_size)
      else py_range0 n batch_size)"

text \<open>Lines 113--116.\<close>

fun clip_batch_loop ::
  "(pyval list \<Rightarrow> bool \<Rightarrow> error + 'e list) \<Rightarrow> pyval list \<Rightarrow> int \<Rightarrow> nat list \<Rightarrow>
   (pyval list \<times> bool) list \<Rightarrow> 'e list \<Rightarrow> (pyval list \<times> bool) list \<times> (error + 'e list)" where
  "clip_batch_loop encode_text sentences_sorted batch_size [] calls all_embeddings =
     (calls, Inr all_embeddings)"
| "clip_batch_loop encode_text sentences_sorted batch_size (start_index # rest) calls all_embeddings =
     (let sentences_batch =
            py_slice sentences_sorted start_index (int start_index + batch_size)
      in case encode_text sentences_batch True of
           Inl e \<Rightarrow> (calls @ [(sentences_batch, True)], Inl e)
         | Inr embeddings \<Rightarrow>
             clip_batch_loop encode_text sentences_sorted batch_size rest
               (calls @ [(sentences_batch, True)]) (all_embeddings @ embeddings))"

text \<open>Lines 108--117, run in the module namespace \<open>names\<close>.\<close>

definition clip_all_embeddings ::
  "string list \<Rightarrow> (nat list \<Rightarrow> nat list) \<Rightarrow> (pyval list \<Rightarrow> bool \<Rightarrow> error + 'e list) \<Rightarrow>
   pyval list \<Rightarrow> int \<Rightarrow> pyval \<Rightarrow> (pyval list \<times> bool) list \<times> (error + 'e list)" where
  "clip_all_embeddings names argsort encode_text sentences batch_size show_progress_bar =
     (case clip_sort_stage argsort sentences of
        Inl e \<Rightarrow> ([], Inl e)
      | Inr (length_sorted_idx, sentences_sorted) \<Rightarrow>
          (case clip_iterator names show_progress_bar (length sentences) batch_size of
             Inl e \<Rightarrow> ([], Inl e)
           | Inr starts \<Rightarrow>
               (case clip_batch_loop encode_text sentences_sorted batch_size starts [] [] of
                  (calls, Inl e) \<Rightarrow> (calls, Inl e)
                | (calls, Inr all_embeddings) \<Rightarrow>
                    (calls, map_result (py_getitem all_embeddings) (argsort length_sorted_idx)))))"

text \<open>Lines 96--123.\<close>

definition WrappedOpenCLIPTransformer_encode ::
  "string list \<Rightarrow> (nat list \<Rightarrow> nat list) \<Rightarrow> (pyval list \<Rightarrow> bool \<Rightarrow> error + 'e list) \<Rightarrow>
   pyval list \<Rightarrow> int \<Rightarrow> pyval \<Rightarrow> pyval \<Rightarrow> pyval \<Rightarrow>
   (pyval list \<times> bool) list \<times> (error + 'e encoded)" where
  "WrappedOpenCLIPTransformer_encode names argsort encode_text sentences batch_size
       show_progress_bar convert_to_numpy convert_to_tensor =
     (case clip_all_embeddings names argsort encode_text sentences batch_size show_progress_bar of
        (calls, Inl e) \<Rightarrow> (calls, Inl e)
      | (calls, Inr all_embeddings) \<Rightarrow>
          (calls,
           if truthy convert_to_tensor then torch_stack all_embeddings
           else if truthy convert_to_numpy then np_asarray all_embeddings
           else Inr (RowList all_embeddings)))"

section \<open>The \<open>__main__\<close> block\<close>

definition huggingface_transformers :: "string list" where
  "huggingface_transformers =
     [''bert-base-uncased'',
      ''bert-base-cased'',
      ''bert-large-uncased'',
      ''bert-large-cased'',
      ''roberta-base'',
      ''roberta-large'',
      ''roberta-large-mnli'',
      ''facebook/muppet-roberta-large'',
      ''facebook/contriever'',
      ''facebook/contriever-msmarco'',
      ''Jean-Baptiste/roberta-large-ner-english'',
      ''princeton-nlp/unsup-simcse-roberta-large'',
      ''princeton-nlp/sup-simcse-roberta-large'',
      ''xlm-roberta-large'',
      ''xlm-roberta-large-finetuned-conll03-english'',
      ''deepset/xlm-roberta-large-squad2'',
      ''joeddav/xlm-roberta-large-xnli'',
      ''sentence-transformers/distiluse-base-multilingual-cased-v2'',
      ''sentence-transformers/paraphrase-distilroberta-base-v2'',
      ''sentence-transformers/paraphrase-MiniLM-L6-v2'',
      ''sentence-transformers/msmarco-distilbert-base-tas-b'',
      ''sentence-transformers/all-MiniLM-L12-v1'',
      ''sentence-transformers/all-mpnet-base-v2'',
      ''sentence-transformers/all-roberta-large-v1'']"

definition sentence_transformers :: "string list" where
  "sentence_transformers =
     [''average_word_embeddings_glove.6B.300d'',
      ''average_word_embeddings_komninos'']"

definition open_clip_transformers :: "string list" where
  "open_clip_transformers =
     [''RN50'',
      ''RN101'',
      ''RN50x4'',
      ''RN50x16'',
      ''ViT-B-32'',
      ''ViT-B-16'',
      ''ViT-L-14'',
      ''ViT-L-14-336'']"

text \<open>The adapter that lines 208--215 construct; \<open>raise 'wtf?'\<close> raises a
  \<open>TypeError\<close> in Python 3, since a string is not an exception.\<close>

datatype adapter =
    WrappedHuggingfaceTransformer string
  | SentenceTransformer string
  | WrappedOpenCLIPTransformer string

definition dispatch :: "string \<Rightarrow> error + adapter" where
  "dispatch model_name =
     (if model_name \<in> set huggingface_transformers then
        Inr (WrappedHuggingfaceTransformer model_name)
      else if model_name \<in> set sentence_transformers then
        Inr (SentenceTransformer model_name)
      else if model_name \<in> set open_clip_transformers then
        Inr (WrappedOpenCLIPTransformer model_name)
      else Inl TypeError)"













section \<open>Auxiliary facts\<close>

subsection \<open>List comprehensions that do not raise\<close>

lemma map_result_Inr:
  "(\<And>x. x \<in> set xs \<Longrightarrow> f x = Inr (g x)) \<Longrightarrow> map_result f xs = Inr (map g xs)"
  by (induction xs) simp_all

lemma map_result_getitem:
  "(\<And>i. i \<in> set is \<Longrightarrow> i < length xs) \<Longrightarrow>
   map_result (py_getitem xs) is = Inr (map (\<lambda>i. xs ! i) is)"
  by (rule map_result_Inr) (simp add: py_getitem_def)

subsection \<open>The contract of \<open>argsort\<close>\<close>

lemma argsort_ok_distinct: "argsort_ok argsort \<Longrightarrow> distinct (argsort ks)"
  by (simp add: argsort_ok_def)

lemma argsort_ok_set: "argsort_ok argsort \<Longrightarrow> set (argsort ks) = {0..<length ks}"
  by (simp add: argsort_ok_def)

lemma argsort_ok_sorted: "argsort_ok argsort \<Longrightarrow> sorted (map (\<lambda>i. ks ! i) (argsort ks))"
  by (simp add: argsort_ok_def)

lemma argsort_ok_length:
  assumes "argsort_ok argsort"
  shows "length (argsort ks) = length ks"
proof -
  have "length (argsort ks) = card (set (argsort ks))"
    using argsort_ok_distinct [OF assms] by (simp add: distinct_card)
  also have "\<dots> = length ks"
    using argsort_ok_set [OF assms, of ks] by simp
  finally show ?thesis .
qed

lemma argsort_ok_Nil: "argsort_ok argsort \<Longrightarrow> argsort [] = []"
  using argsort_ok_length [of argsort "[]"] by simp

lemma argsort_ok_single: 
  assumes "argsort_ok argsort"
  shows "argsort [k] = [0]"
proof -
  have l: "length (argsort [k]) = 1"
    using argsort_ok_length [OF assms, of "[k]"] by simp
  then obtain i where i: "argsort [k] = [i]"
    by (cases "argsort [k]") simp_all
  have "set (argsort [k]) = {0}"
    using argsort_ok_set [OF assms, of "[k]"] by simp
  with i show ?thesis by simp
qed

lemma is_perm_length: "is_perm idx n \<Longrightarrow> length idx = n"
  using distinct_card [of idx] by (simp add: is_perm_def)

lemma argsort_ok_perm: "argsort_ok argsort \<Longrightarrow> is_perm (argsort ks) (length ks)"
  by (simp add: is_perm_def argsort_ok_def)

text \<open>The argsort of a permutation is its inverse: the keys are distinct, so only one
  order is ascending.\<close>

lemma argsort_of_perm_inverse:
  assumes ok: "argsort_ok argsort" and p: "is_perm idx n"
  shows "map (\<lambda>i. idx ! i) (argsort idx) = [0..<n]"
proof -
  let ?inv = "argsort idx"
  have len: "length idx = n" using p by (rule is_perm_length)
  have inv: "is_perm ?inv n" using argsort_ok_perm [OF ok, of idx] len by simp
  have inj: "inj_on (\<lambda>i. idx ! i) (set ?inv)"
    using p inv len by (intro inj_on_nth) (auto simp: is_perm_def)
  have d: "distinct (map (\<lambda>i. idx ! i) ?inv)"
    using inv inj by (simp add: distinct_map is_perm_def)
  have "set (map (\<lambda>i. idx ! i) ?inv) = (\<lambda>i. idx ! i) ` {0..<length idx}"
    using inv len by (simp add: is_perm_def)
  also have "\<dots> = set idx"
    using nth_image [of "length idx" idx] by simp
  finally have s: "set (map (\<lambda>i. idx ! i) ?inv) = set [0..<n]"
    using p by (simp add: is_perm_def)
  show ?thesis
    using sorted_distinct_set_unique [OF argsort_ok_sorted [OF ok, of idx] d _ _ s]
    by simp
qed

lemma unsort_sorted:
  assumes ok: "argsort_ok argsort" and p: "is_perm idx (length xs)"
  shows "map (\<lambda>i. map (\<lambda>j. g (xs ! j)) idx ! i) (argsort idx) = map g xs"
proof -
  have len: "length idx = length xs" using p by (rule is_perm_length)
  have inv: "is_perm (argsort idx) (length xs)"
    using argsort_ok_perm [OF ok, of idx] len by simp
  have "map (\<lambda>i. map (\<lambda>j. g (xs ! j)) idx ! i) (argsort idx)
      = map (\<lambda>i. g (xs ! (idx ! i))) (argsort idx)"
    using inv len by (intro map_cong) (auto simp: is_perm_def)
  also have "\<dots> = map (\<lambda>j. g (xs ! j)) (map (\<lambda>i. idx ! i) (argsort idx))"
    by (simp add: comp_def)
  also have "\<dots> = map (\<lambda>j. g (xs ! j)) [0..<length xs]"
    using argsort_of_perm_inverse [OF ok p] by simp
  also have "\<dots> = map g xs"
    by (rule nth_equalityI) simp_all
  finally show ?thesis .
qed

subsection \<open>Batches\<close>

lemma py_slice_chunk:
  "0 < b \<Longrightarrow> py_slice xs s (int s + b) = take (nat b) (drop s xs)"
  by (simp add: py_slice_def Let_def nat_add_distrib)

lemma concat_chunks:
  "concat (map (\<lambda>k. take b (drop (k * b) xs)) [0..<m]) = take (m * b) xs"
proof (induction m)
  case 0
  show ?case by simp
next
  case (Suc m)
  have "take (m * b + b) xs = take (m * b) xs @ take b (drop (m * b) xs)"
    by (rule take_add)
  with Suc show ?case by (simp add: add.commute)
qed

lemma chunks_cover:
  assumes "0 < (b::nat)"
  shows "n \<le> ((n + b - 1) div b) * b"
proof -
  have "(n + b - 1) div b * b + (n + b - 1) mod b = n + b - 1"
    by (rule div_mult_mod_eq)
  moreover have "(n + b - 1) mod b < b"
    using assms by simp
  ultimately show ?thesis by linarith
qed

lemma chunk_count_pos:
  assumes "0 < (b::nat)" "k < (n + b - 1) div b"
  shows "k * b < n"
proof -
  have "Suc k \<le> (n + b - 1) div b" using assms(2) by simp
  then have "Suc k * b \<le> (n + b - 1) div b * b" by (rule mult_le_mono1)
  also have "\<dots> \<le> n + b - 1" by (rule div_times_less_eq_dividend)
  finally have "k * b + b \<le> n + b - 1" by (simp add: add.commute)
  with assms(1) show ?thesis by linarith
qed

lemma py_range0_pos:
  "0 < b \<Longrightarrow> py_range0 n b = Inr (map (\<lambda>k. k * nat b) [0..<(n + nat b - 1) div nat b])"
  by (simp add: py_range0_def)

subsection \<open>Two admissible \<open>argsort\<close> functions\<close>

lemma argsort_by_sort_key:
  assumes s: "set zs = set (zip ks [0..<length ks])" and d: "distinct (map snd zs)"
  shows "distinct (map snd (sort_key fst zs))
     \<and> set (map snd (sort_key fst zs)) = {0..<length ks}
     \<and> sorted (map (\<lambda>i. ks ! i) (map snd (sort_key fst zs)))"
proof -
  have d': "distinct (map snd (sort_key fst zs))"
    using d by (simp add: distinct_map)
  have "map snd (zip ks [0..<length ks]) = [0..<length ks]"
    by simp
  then have "snd ` set (zip ks [0..<length ks]) = {0..<length ks}"
    by (metis set_map set_upt)
  then have s': "set (map snd (sort_key fst zs)) = {0..<length ks}"
    using s by simp
  have key: "ks ! snd z = fst z" if "z \<in> set zs" for z
  proof -
    from that s have "z \<in> set (zip ks [0..<length ks])" by simp
    then obtain n where "ks ! n = fst z" and "[0..<length ks] ! n = snd z" and "n < length ks"
      unfolding in_set_zip by auto
    then show ?thesis by simp
  qed
  have "map (\<lambda>i. ks ! i) (map snd (sort_key fst zs)) = map fst (sort_key fst zs)"
    using key by simp
  then have "sorted (map (\<lambda>i. ks ! i) (map snd (sort_key fst zs)))"
    by (simp only: sorted_sort_key)
  with d' s' show ?thesis by blast
qed

lemma argsort_stable_ok: "argsort_ok argsort_stable"
  unfolding argsort_ok_def argsort_stable_def
  by (intro allI argsort_by_sort_key) simp_all

lemma argsort_ties_reversed_ok: "argsort_ok argsort_ties_reversed"
  unfolding argsort_ok_def argsort_ties_reversed_def
  by (intro allI argsort_by_sort_key) (simp_all add: rev_map [symmetric])

subsection \<open>The two copies of the routine\<close>

lemma clip_text_length_eq:
  "WrappedOpenCLIPTransformer_text_length t = WrappedHuggingfaceTransformer_text_length t"
  by (simp add: WrappedOpenCLIPTransformer_text_length_def
      WrappedHuggingfaceTransformer_text_length_def)

lemma clip_sort_stage_eq: "clip_sort_stage argsort sentences = hf_sort_stage argsort sentences"
  by (simp add: clip_sort_stage_def hf_sort_stage_def clip_text_length_eq [abs_def])

subsection \<open>The sort stage\<close>

lemma text_lengths_Inr:
  assumes "\<forall>s \<in> set sentences. \<not> isl (WrappedHuggingfaceTransformer_text_length s)"
  shows "map_result WrappedHuggingfaceTransformer_text_length sentences
      = Inr (map (\<lambda>s. projr (WrappedHuggingfaceTransformer_text_length s)) sentences)"
  using assms by (intro map_result_Inr) simp

lemma hf_sort_stage_ok:
  assumes ok: "argsort_ok argsort"
    and wf: "\<forall>s \<in> set sentences. \<not> isl (WrappedHuggingfaceTransformer_text_length s)"
  shows "hf_sort_stage argsort sentences =
     Inr (argsort (map (\<lambda>s. projr (WrappedHuggingfaceTransformer_text_length s)) sentences),
          map (\<lambda>i. sentences ! i)
            (argsort (map (\<lambda>s. projr (WrappedHuggingfaceTransformer_text_length s)) sentences)))"
proof -
  let ?lens = "map (\<lambda>s. projr (WrappedHuggingfaceTransformer_text_length s)) sentences"
  have "set (argsort ?lens) = {0..<length sentences}"
    using argsort_ok_set [OF ok, of ?lens] by simp
  then have "map_result (py_getitem sentences) (argsort ?lens)
      = Inr (map (\<lambda>i. sentences ! i) (argsort ?lens))"
    by (intro map_result_getitem) simp
  then show ?thesis
    by (simp add: hf_sort_stage_def text_lengths_Inr [OF wf] Let_def)
qed

subsection \<open>Iterating over the batches\<close>

lemma hf_batch_loop_Inr:
  assumes "\<And>s. s \<in> set starts \<Longrightarrow>
      encode_text (py_slice ss s (int s + b)) False = Inr (g (py_slice ss s (int s + b)))"
  shows "hf_batch_loop encode_text ss b starts calls acc =
     (calls @ map (\<lambda>s. (py_slice ss s (int s + b), False)) starts,
      Inr (acc @ concat (map (\<lambda>s. g (py_slice ss s (int s + b))) starts)))"
  using assms by (induction starts arbitrary: calls acc) (simp_all add: Let_def)

lemma clip_batch_loop_Inr:
  assumes "\<And>s. s \<in> set starts \<Longrightarrow>
      encode_text (py_slice ss s (int s + b)) True = Inr (g (py_slice ss s (int s + b)))"
  shows "clip_batch_loop encode_text ss b starts calls acc =
     (calls @ map (\<lambda>s. (py_slice ss s (int s + b), True)) starts,
      Inr (acc @ concat (map (\<lambda>s. g (py_slice ss s (int s + b))) starts)))"
  using assms by (induction starts arbitrary: calls acc) (simp_all add: Let_def)

text \<open>The loop over \<open>range(0, n, batch_size)\<close>, for a primitive that does not fail.\<close>

lemma hf_batch_loop_range:
  assumes b: "0 < b" and enc: "\<And>batch. encode_text batch False = Inr (g batch)"
  shows "hf_batch_loop encode_text ss b (map (\<lambda>k. k * nat b) [0..<m]) [] [] =
     (map (\<lambda>k. (take (nat b) (drop (k * nat b) ss), False)) [0..<m],
      Inr (concat (map (\<lambda>k. g (take (nat b) (drop (k * nat b) ss))) [0..<m])))"
  using hf_batch_loop_Inr [of "map (\<lambda>k. k * nat b) [0..<m]" encode_text ss b g "[]" "[]"] enc
  by (simp add: py_slice_chunk [OF b] comp_def)

lemma clip_batch_loop_range:
  assumes b: "0 < b" and enc: "\<And>batch. encode_text batch True = Inr (g batch)"
  shows "clip_batch_loop encode_text ss b (map (\<lambda>k. k * nat b) [0..<m]) [] [] =
     (map (\<lambda>k. (take (nat b) (drop (k * nat b) ss), True)) [0..<m],
      Inr (concat (map (\<lambda>k. g (take (nat b) (drop (k * nat b) ss))) [0..<m])))"
  using clip_batch_loop_Inr [of "map (\<lambda>k. k * nat b) [0..<m]" encode_text ss b g "[]" "[]"] enc
  by (simp add: py_slice_chunk [OF b] comp_def)

lemma concat_map_chunks:
  assumes "0 < b" and "length ss = n"
  shows "concat (map (\<lambda>k. map f (take b (drop (k * b) ss))) [0..<(n + b - 1) div b]) = map f ss"
proof -
  have "concat (map (\<lambda>k. map f (take b (drop (k * b) ss))) [0..<(n + b - 1) div b])
      = map f (concat (map (\<lambda>k. take b (drop (k * b) ss)) [0..<(n + b - 1) div b]))"
    by (simp add: map_concat comp_def)
  also have "\<dots> = map f (take ((n + b - 1) div b * b) ss)"
    by (simp only: concat_chunks)
  also have "\<dots> = map f ss"
    using chunks_cover [OF assms(1), of n] assms(2) by simp
  finally show ?thesis .
qed

subsection \<open>Lines 41--49 as a whole\<close>

lemma hf_sort_stage_perm:
  assumes ok: "argsort_ok argsort"
    and wf: "\<forall>s \<in> set sentences. \<not> isl (WrappedHuggingfaceTransformer_text_length s)"
    and st: "hf_sort_stage argsort sentences = Inr (idx, ss)"
  shows "is_perm idx (length sentences)" and "ss = map (\<lambda>i. sentences ! i) idx"
    and "idx = argsort (map (\<lambda>s. projr (WrappedHuggingfaceTransformer_text_length s)) sentences)"
proof -
  let ?lens = "map (\<lambda>s. projr (WrappedHuggingfaceTransformer_text_length s)) sentences"
  from st hf_sort_stage_ok [OF ok wf]
  show i: "idx = argsort ?lens" and "ss = map (\<lambda>i. sentences ! i) idx"
    by auto
  show "is_perm idx (length sentences)"
    using argsort_ok_perm [OF ok, of ?lens] i by simp
qed

lemma hf_all_embeddings_unfold:
  assumes b: "0 < batch_size"
    and enc: "\<And>batch. encode_text batch False = Inr (g batch)"
    and st: "hf_sort_stage argsort sentences = Inr (idx, ss)"
  shows "hf_all_embeddings argsort encode_text sentences batch_size =
     (map (\<lambda>k. (take (nat batch_size) (drop (k * nat batch_size) ss), False))
        [0..<(length sentences + nat batch_size - 1) div nat batch_size],
      map_result
        (py_getitem (concat (map (\<lambda>k. g (take (nat batch_size) (drop (k * nat batch_size) ss)))
           [0..<(length sentences + nat batch_size - 1) div nat batch_size])))
        (argsort idx))"
  by (simp add: hf_all_embeddings_def st py_range0_pos [OF b]
      hf_batch_loop_range [of batch_size encode_text g, OF b enc])

lemma clip_all_embeddings_unfold:
  assumes b: "0 < batch_size"
    and enc: "\<And>batch. encode_text batch True = Inr (g batch)"
    and st: "hf_sort_stage argsort sentences = Inr (idx, ss)"
    and spb: "\<not> truthy show_progress_bar"
  shows "clip_all_embeddings names argsort encode_text sentences batch_size show_progress_bar =
     (map (\<lambda>k. (take (nat batch_size) (drop (k * nat batch_size) ss), True))
        [0..<(length sentences + nat batch_size - 1) div nat batch_size],
      map_result
        (py_getitem (concat (map (\<lambda>k. g (take (nat batch_size) (drop (k * nat batch_size) ss)))
           [0..<(length sentences + nat batch_size - 1) div nat batch_size])))
        (argsort idx))"
  by (simp add: clip_all_embeddings_def clip_sort_stage_eq st clip_iterator_def spb
      py_range0_pos [OF b] clip_batch_loop_range [of batch_size encode_text g, OF b enc])

text \<open>Sorting, encoding item by item and applying the inverse permutation.\<close>

lemma unsort_embeddings:
  assumes ok: "argsort_ok argsort" and p: "is_perm idx (length sentences)"
    and b: "0 < b"
  shows "map_result
      (py_getitem (concat (map (\<lambda>k. map f (take b (drop (k * b) (map (\<lambda>i. sentences ! i) idx))))
         [0..<(length sentences + b - 1) div b])))
      (argsort idx) = Inr (map f sentences)"
proof -
  let ?ss = "map (\<lambda>i. sentences ! i) idx"
  have len: "length idx = length sentences" using p by (rule is_perm_length)
  have all: "concat (map (\<lambda>k. map f (take b (drop (k * b) ?ss)))
      [0..<(length sentences + b - 1) div b]) = map (\<lambda>j. f (sentences ! j)) idx"
    using concat_map_chunks [OF b, of ?ss "length sentences" f] len by (simp add: comp_def)
  have "set (argsort idx) = {0..<length idx}"
    using argsort_ok_set [OF ok] .
  then have "map_result (py_getitem (map (\<lambda>j. f (sentences ! j)) idx)) (argsort idx)
      = Inr (map (\<lambda>i. map (\<lambda>j. f (sentences ! j)) idx ! i) (argsort idx))"
    by (intro map_result_getitem) simp
  also have "\<dots> = Inr (map f sentences)"
    using unsort_sorted [OF ok p, of f] by simp
  finally show ?thesis using all by simp
qed

lemma hf_all_embeddings_pointwise:
  assumes ok: "argsort_ok argsort" and b: "0 < batch_size"
    and wf: "\<forall>s \<in> set sentences. \<not> isl (WrappedHuggingfaceTransformer_text_length s)"
    and enc: "\<And>batch. encode_text batch False = Inr (map f batch)"
  shows "snd (hf_all_embeddings argsort encode_text sentences batch_size) = Inr (map f sentences)"
proof -
  obtain idx ss where st: "hf_sort_stage argsort sentences = Inr (idx, ss)"
    using hf_sort_stage_ok [OF ok wf] by blast
  note p = hf_sort_stage_perm [OF ok wf st]
  have b': "0 < nat batch_size" using b by simp
  show ?thesis
    using unsort_embeddings [OF ok p(1) b', of f]
    by (simp add: hf_all_embeddings_unfold [of batch_size encode_text "map f", OF b enc st] p(2))
qed

lemma clip_all_embeddings_pointwise:
  assumes ok: "argsort_ok argsort" and b: "0 < batch_size"
    and wf: "\<forall>s \<in> set sentences. \<not> isl (WrappedHuggingfaceTransformer_text_length s)"
    and enc: "\<And>batch. encode_text batch True = Inr (map f batch)"
    and spb: "\<not> truthy show_progress_bar"
  shows "snd (clip_all_embeddings names argsort encode_text sentences batch_size show_progress_bar)
     = Inr (map f sentences)"
proof -
  obtain idx ss where st: "hf_sort_stage argsort sentences = Inr (idx, ss)"
    using hf_sort_stage_ok [OF ok wf] by blast
  note p = hf_sort_stage_perm [OF ok wf st]
  have b': "0 < nat batch_size" using b by simp
  show ?thesis
    using unsort_embeddings [OF ok p(1) b', of f]
    by (simp add: clip_all_embeddings_unfold [of batch_size encode_text "map f", OF b enc st spb]
        p(2))
qed

lemma hf_encode_snd:
  "snd (WrappedHuggingfaceTransformer_encode argsort encode_text sentences batch_size
       show_progress_bar convert_to_numpy convert_to_tensor) =
   (case snd (hf_all_embeddings argsort encode_text sentences batch_size) of
      Inl e \<Rightarrow> Inl e
    | Inr all_embeddings \<Rightarrow>
        if truthy convert_to_tensor then torch_stack all_embeddings
        else if truthy convert_to_numpy then np_asarray all_embeddings
        else Inr (RowList all_embeddings))"
  by (simp add: WrappedHuggingfaceTransformer_encode_def split: prod.splits sum.splits)

lemma hf_encode_fst:
  "fst (WrappedHuggingfaceTransformer_encode argsort encode_text sentences batch_size
       show_progress_bar convert_to_numpy convert_to_tensor) =
   fst (hf_all_embeddings argsort encode_text sentences batch_size)"
  by (simp add: WrappedHuggingfaceTransformer_encode_def split: prod.splits sum.splits)

lemma clip_encode_snd:
  "snd (WrappedOpenCLIPTransformer_encode names argsort encode_text sentences batch_size
       show_progress_bar convert_to_numpy convert_to_tensor) =
   (case snd (clip_all_embeddings names argsort encode_text sentences batch_size
          show_progress_bar) of
      Inl e \<Rightarrow> Inl e
    | Inr all_embeddings \<Rightarrow>
        if truthy convert_to_tensor then torch_stack all_embeddings
        else if truthy convert_to_numpy then np_asarray all_embeddings
        else Inr (RowList all_embeddings))"
  by (simp add: WrappedOpenCLIPTransformer_encode_def split: prod.splits sum.splits)

lemma clip_encode_fst:
  "fst (WrappedOpenCLIPTransformer_encode names argsort encode_text sentences batch_size
       show_progress_bar convert_to_numpy convert_to_tensor) =
   fst (clip_all_embeddings names argsort encode_text sentences batch_size show_progress_bar)"
  by (simp add: WrappedOpenCLIPTransformer_encode_def split: prod.splits sum.splits)

lemma convert_rows:
  assumes "es \<noteq> [] \<or> \<not> truthy convert_to_tensor"
  shows "\<exists>r. (if truthy convert_to_tensor then torch_stack es
         else if truthy convert_to_numpy then np_asarray es
         else Inr (RowList es)) = Inr r \<and> rows r = es"
  using assms by (auto simp: torch_stack_def np_asarray_def)

subsection \<open>Sizes of the batches\<close>

lemma single_chunk:
  assumes "0 < (n::nat)" and "n \<le> b"
  shows "(n + b - 1) div b = 1"
proof (rule div_nat_eqI)
  show "b * 1 \<le> n + b - 1" using assms by simp
  show "n + b - 1 < b * Suc 1" using assms by simp
qed

lemma chunk_nonempty:
  assumes "0 < (b::nat)" and "k < (length ss + b - 1) div b"
  shows "take b (drop (k * b) ss) \<noteq> []" and "length (take b (drop (k * b) ss)) \<le> b"
  using chunk_count_pos [OF assms] assms(1) by simp_all

lemma chunks_partition:
  assumes "0 < (b::nat)"
  shows "concat (map (\<lambda>k. take b (drop (k * b) ss)) [0..<(length ss + b - 1) div b]) = ss"
  using chunks_cover [OF assms, of "length ss"] by (simp only: concat_chunks take_all)

lemma primitive_total:
  "\<forall>batch projection. \<not> isl (encode_text batch projection) \<Longrightarrow>
   encode_text batch p = Inr (projr (encode_text batch p))"
  by simp

lemma hf_calls:
  assumes ok: "argsort_ok argsort" and b: "0 < batch_size"
    and wf: "\<forall>s \<in> set sentences. \<not> isl (WrappedHuggingfaceTransformer_text_length s)"
    and enc: "\<forall>batch projection. \<not> isl (encode_text batch projection)"
    and st: "hf_sort_stage argsort sentences = Inr (idx, ss)"
  shows "fst (hf_all_embeddings argsort encode_text sentences batch_size) =
     map (\<lambda>k. (take (nat batch_size) (drop (k * nat batch_size) ss), False))
       [0..<(length sentences + nat batch_size - 1) div nat batch_size]"
  using hf_all_embeddings_unfold [of batch_size encode_text
      "\<lambda>batch. projr (encode_text batch False)", OF b primitive_total [OF enc] st]
  by simp

section \<open>Estimated length\<close>

lemma map_result_py_len_strs: "map_result py_len (map PyStr ss) = Inr (map length ss)"
  by (induction ss) simp_all

lemma map_result_py_len_chars:
  "map_result py_len (map (\<lambda>c. PyStr [c]) s) = Inr (map (\<lambda>c. 1) s)"
  by (induction s) simp_all

lemma sum_list_ones: "sum_list (map (\<lambda>c. 1::nat) s) = length s"
  by (induction s) simp_all

text \<open>
  C2. \<open>_text_length\<close> returns the length of the first value for a dict; 1 for an item
  without \<open>__len__\<close>; the item's own length for an empty sequence or a sequence whose
  first element is an integer; otherwise the sum of the lengths of its constituents (for a
  string, whose constituents are its characters, that sum is its length). A 3-character
  string gets 3, a list of five integers gets 5, \<open>None\<close> gets 1.
\<close>

theorem text_length_cases:
  "WrappedHuggingfaceTransformer_text_length (PyDict ((k, v) # kvs)) = py_len v
   \<and> (\<not> hasattr_len text \<longrightarrow> WrappedHuggingfaceTransformer_text_length text = Inr 1)
   \<and> WrappedHuggingfaceTransformer_text_length (PyList []) = Inr 0
   \<and> (isinstance_int x \<longrightarrow>
        WrappedHuggingfaceTransformer_text_length (PyList (x # xs)) = Inr (length (x # xs)))
   \<and> (\<not> isinstance_int x \<and> map_result py_len (x # xs) = Inr ls \<longrightarrow>
        WrappedHuggingfaceTransformer_text_length (PyList (x # xs)) = Inr (sum_list ls))
   \<and> WrappedHuggingfaceTransformer_text_length (PyList (map PyStr (s # ss)))
        = Inr (sum_list (map length (s # ss)))
   \<and> WrappedHuggingfaceTransformer_text_length (PyStr s) = Inr (length s)
   \<and> WrappedHuggingfaceTransformer_text_length (PyStr ''abc'') = Inr 3
   \<and> WrappedHuggingfaceTransformer_text_length (PyList [PyInt 7, PyInt 8, PyInt 9, PyInt 10, PyInt 11]) = Inr 5
   \<and> WrappedHuggingfaceTransformer_text_length PyNone = Inr 1"
proof -
  have dict: "WrappedHuggingfaceTransformer_text_length (PyDict ((k, v) # kvs)) = py_len v"
    by (simp add: WrappedHuggingfaceTransformer_text_length_def)
  have nolen: "\<not> hasattr_len text \<Longrightarrow> WrappedHuggingfaceTransformer_text_length text = Inr 1"
    by (cases "text") (simp_all add: WrappedHuggingfaceTransformer_text_length_def)
  have empty: "WrappedHuggingfaceTransformer_text_length (PyList []) = Inr 0"
    by (simp add: WrappedHuggingfaceTransformer_text_length_def)
  have ints: "isinstance_int x \<Longrightarrow>
      WrappedHuggingfaceTransformer_text_length (PyList (x # xs)) = Inr (length (x # xs))"
    by (simp add: WrappedHuggingfaceTransformer_text_length_def)
  have other: "\<not> isinstance_int x \<and> map_result py_len (x # xs) = Inr ls \<Longrightarrow>
      WrappedHuggingfaceTransformer_text_length (PyList (x # xs)) = Inr (sum_list ls)"
    by (simp add: WrappedHuggingfaceTransformer_text_length_def)
  have strs: "WrappedHuggingfaceTransformer_text_length (PyList (map PyStr (s # ss)))
        = Inr (sum_list (map length (s # ss)))"
    using map_result_py_len_strs [of "s # ss"]
    by (simp add: WrappedHuggingfaceTransformer_text_length_def)
  have str: "WrappedHuggingfaceTransformer_text_length (PyStr s) = Inr (length s)" for s
  proof (cases s)
    case Nil
    then show ?thesis by (simp add: WrappedHuggingfaceTransformer_text_length_def)
  next
    case (Cons c cs)
    then show ?thesis
      using map_result_py_len_chars [of s] sum_list_ones [of s]
      by (simp add: WrappedHuggingfaceTransformer_text_length_def)
  qed
  have abc: "WrappedHuggingfaceTransformer_text_length (PyStr ''abc'') = Inr 3"
    using str [of "''abc''"] by simp
  have five: "WrappedHuggingfaceTransformer_text_length
      (PyList [PyInt 7, PyInt 8, PyInt 9, PyInt 10, PyInt 11]) = Inr 5"
    by (simp add: WrappedHuggingfaceTransformer_text_length_def)
  have none: "WrappedHuggingfaceTransformer_text_length PyNone = Inr 1"
    by (simp add: WrappedHuggingfaceTransformer_text_length_def)
  show ?thesis
    using dict nolen empty ints other strs str abc five none by blast
qed

text \<open>The cases of C2 at a tokenised dict, an integer, a list of token ids and a pair
  of strings.\<close>

theorem text_length_cases_witness:
  "WrappedHuggingfaceTransformer_text_length
      (PyDict [(PyStr ''input_ids'', PyList [PyInt 101, PyInt 7, PyInt 102]),
               (PyStr ''attention_mask'', PyList [PyInt 1, PyInt 1, PyInt 1])]) = Inr 3
   \<and> \<not> hasattr_len (PyInt 42)
   \<and> WrappedHuggingfaceTransformer_text_length (PyInt 42) = Inr 1
   \<and> isinstance_int (PyInt 101)
   \<and> WrappedHuggingfaceTransformer_text_length (PyList [PyInt 101, PyInt 102]) = Inr 2
   \<and> \<not> isinstance_int (PyStr ''ab'')
   \<and> map_result py_len [PyStr ''ab'', PyStr ''cde''] = Inr [2, 3]
   \<and> WrappedHuggingfaceTransformer_text_length (PyList [PyStr ''ab'', PyStr ''cde'']) = Inr 5"
proof -
  have h1: "\<not> hasattr_len (PyInt 42)" by simp
  have h2: "isinstance_int (PyInt 101)" by simp
  have h3: "\<not> isinstance_int (PyStr ''ab'') \<and> map_result py_len [PyStr ''ab'', PyStr ''cde''] = Inr [2, 3]"
    by simp
  show ?thesis
    using text_length_cases [of "PyStr ''input_ids''" "PyList [PyInt 101, PyInt 7, PyInt 102]"
        "[(PyStr ''attention_mask'', PyList [PyInt 1, PyInt 1, PyInt 1])]"
        "PyInt 42" "PyInt 101" "[PyInt 102]" "[2, 3]" "''ab''" "[]"]
      text_length_cases [of "PyStr ''input_ids''" "PyList [PyInt 101, PyInt 7, PyInt 102]"
        "[]" "PyInt 42" "PyStr ''ab''" "[PyStr ''cde'']" "[2, 3]" "''ab''" "[]"]
      h1 h2 h3
    by simp
qed

section \<open>Model dispatch\<close>

lemma lists_disjoint:
  "set huggingface_transformers \<inter> set sentence_transformers = {}"
  "set huggingface_transformers \<inter> set open_clip_transformers = {}"
  "set sentence_transformers \<inter> set open_clip_transformers = {}"
  by (simp_all add: huggingface_transformers_def sentence_transformers_def
      open_clip_transformers_def)

text \<open>
  C3. The three static lists are pairwise disjoint; a model name in one of them gets the
  adapter of that list, and a name in none of them raises (the \<open>TypeError\<close> of
  \<open>raise 'wtf?'\<close>) and constructs nothing.
\<close>

theorem dispatch_selects_one:
  "set huggingface_transformers \<inter> set sentence_transformers = {}
   \<and> set huggingface_transformers \<inter> set open_clip_transformers = {}
   \<and> set sentence_transformers \<inter> set open_clip_transformers = {}
   \<and> (model_name \<in> set huggingface_transformers \<longrightarrow>
        dispatch model_name = Inr (WrappedHuggingfaceTransformer model_name))
   \<and> (model_name \<in> set sentence_transformers \<longrightarrow>
        dispatch model_name = Inr (SentenceTransformer model_name))
   \<and> (model_name \<in> set open_clip_transformers \<longrightarrow>
        dispatch model_name = Inr (WrappedOpenCLIPTransformer model_name))
   \<and> (model_name \<notin> set huggingface_transformers \<union> set sentence_transformers
                       \<union> set open_clip_transformers \<longrightarrow>
        dispatch model_name = Inl TypeError)"
proof -
  note d = lists_disjoint
  have a: "model_name \<in> set sentence_transformers \<Longrightarrow>
      model_name \<notin> set huggingface_transformers"
    using d(1) by blast
  have b: "model_name \<in> set open_clip_transformers \<Longrightarrow>
      model_name \<notin> set huggingface_transformers"
    using d(2) by blast
  have c: "model_name \<in> set open_clip_transformers \<Longrightarrow>
      model_name \<notin> set sentence_transformers"
    using d(3) by blast
  show ?thesis
    using a b c d by (simp add: dispatch_def)
qed

text \<open>One name of each list, and \<open>RN50x64\<close>, which is commented out of the third.\<close>

theorem dispatch_selects_one_witness:
  "''roberta-base'' \<in> set huggingface_transformers
   \<and> dispatch ''roberta-base'' = Inr (WrappedHuggingfaceTransformer ''roberta-base'')
   \<and> ''average_word_embeddings_komninos'' \<in> set sentence_transformers
   \<and> dispatch ''average_word_embeddings_komninos''
       = Inr (SentenceTransformer ''average_word_embeddings_komninos'')
   \<and> ''ViT-B-32'' \<in> set open_clip_transformers
   \<and> dispatch ''ViT-B-32'' = Inr (WrappedOpenCLIPTransformer ''ViT-B-32'')
   \<and> ''RN50x64'' \<notin> set huggingface_transformers \<union> set sentence_transformers
                       \<union> set open_clip_transformers
   \<and> dispatch ''RN50x64'' = Inl TypeError"
proof -
  have 1: "''roberta-base'' \<in> set huggingface_transformers"
    by (simp add: huggingface_transformers_def)
  have 2: "''average_word_embeddings_komninos'' \<in> set sentence_transformers"
    by (simp add: sentence_transformers_def)
  have 3: "''ViT-B-32'' \<in> set open_clip_transformers"
    by (simp add: open_clip_transformers_def)
  have 4: "''RN50x64'' \<notin> set huggingface_transformers \<union> set sentence_transformers
      \<union> set open_clip_transformers"
    by (simp add: huggingface_transformers_def sentence_transformers_def
        open_clip_transformers_def)
  show ?thesis
    using dispatch_selects_one [of "''roberta-base''"]
      dispatch_selects_one [of "''average_word_embeddings_komninos''"]
      dispatch_selects_one [of "''ViT-B-32''"]
      dispatch_selects_one [of "''RN50x64''"] 1 2 3 4
    by blast
qed

section \<open>Order of the output\<close>

text \<open>
  C1. With an \<open>argsort\<close> that meets NumPy's contract, a positive batch size, items that
  have an estimated length and a primitive that returns one embedding per text of the batch
  (\<open>emb projection t\<close> for the text \<open>t\<close>), \<open>all_embeddings\<close> after line 49 (and line 117)
  is the list of the embeddings of the input texts in input order, in both wrappers; so are
  the rows of what \<open>encode\<close> returns.
\<close>

theorem encode_restores_input_order:
  assumes ok: "argsort_ok argsort" and b: "0 < batch_size"
    and wf: "\<forall>s \<in> set sentences. \<not> isl (WrappedHuggingfaceTransformer_text_length s)"
    and enc: "\<forall>batch projection.
      encode_text batch projection = Inr (map (emb projection) batch)"
    and spb: "\<not> truthy show_progress_bar"
    and ne: "sentences \<noteq> [] \<or> \<not> truthy convert_to_tensor"
  shows "snd (hf_all_embeddings argsort encode_text sentences batch_size)
       = Inr (map (emb False) sentences)
     \<and> snd (clip_all_embeddings names argsort encode_text sentences batch_size
          show_progress_bar) = Inr (map (emb True) sentences)
     \<and> (\<exists>r. snd (WrappedHuggingfaceTransformer_encode argsort encode_text sentences batch_size
             show_progress_bar convert_to_numpy convert_to_tensor) = Inr r
          \<and> rows r = map (emb False) sentences)
     \<and> (\<exists>r. snd (WrappedOpenCLIPTransformer_encode names argsort encode_text sentences
             batch_size show_progress_bar convert_to_numpy convert_to_tensor) = Inr r
          \<and> rows r = map (emb True) sentences)"
proof -
  have hf: "snd (hf_all_embeddings argsort encode_text sentences batch_size)
      = Inr (map (emb False) sentences)"
    using enc by (intro hf_all_embeddings_pointwise [OF ok b wf]) simp
  have clip: "snd (clip_all_embeddings names argsort encode_text sentences batch_size
      show_progress_bar) = Inr (map (emb True) sentences)"
    using enc by (intro clip_all_embeddings_pointwise [OF ok b wf _ spb]) simp
  have ne1: "map (emb False) sentences \<noteq> [] \<or> \<not> truthy convert_to_tensor"
    using ne by simp
  have ne2: "map (emb True) sentences \<noteq> [] \<or> \<not> truthy convert_to_tensor"
    using ne by simp
  have hf_enc: "\<exists>r. snd (WrappedHuggingfaceTransformer_encode argsort encode_text sentences
      batch_size show_progress_bar convert_to_numpy convert_to_tensor) = Inr r
      \<and> rows r = map (emb False) sentences"
    using convert_rows [OF ne1, of convert_to_numpy] by (simp add: hf_encode_snd hf)
  have clip_enc: "\<exists>r. snd (WrappedOpenCLIPTransformer_encode names argsort encode_text sentences
      batch_size show_progress_bar convert_to_numpy convert_to_tensor) = Inr r
      \<and> rows r = map (emb True) sentences"
    using convert_rows [OF ne2, of convert_to_numpy] by (simp add: clip_encode_snd clip)
  from hf clip hf_enc clip_enc show ?thesis by blast
qed

text \<open>Three items of lengths 3, 1 and 4 in batches of 2, each text tagged with the
  \<open>projection\<close> flag it was encoded with.\<close>

theorem encode_restores_input_order_witness:
  "argsort_ok argsort_stable \<and> (0::int) < 2
   \<and> \<not> isl (WrappedHuggingfaceTransformer_text_length (PyStr ''abc''))
   \<and> \<not> isl (WrappedHuggingfaceTransformer_text_length (PyStr ''a''))
   \<and> \<not> isl (WrappedHuggingfaceTransformer_text_length (PyList [PyStr ''ab'', PyStr ''cd'']))
   \<and> \<not> truthy PyNone
   \<and> snd (hf_all_embeddings argsort_stable (\<lambda>batch projection. Inr (map (\<lambda>t. (t, projection)) batch))
        [PyStr ''abc'', PyStr ''a'', PyList [PyStr ''ab'', PyStr ''cd''] ] 2)
     = Inr [(PyStr ''abc'', False), (PyStr ''a'', False),
            (PyList [PyStr ''ab'', PyStr ''cd''], False)]
   \<and> snd (clip_all_embeddings module_globals argsort_stable
        (\<lambda>batch projection. Inr (map (\<lambda>t. (t, projection)) batch))
        [PyStr ''abc'', PyStr ''a'', PyList [PyStr ''ab'', PyStr ''cd''] ] 2 PyNone)
     = Inr [(PyStr ''abc'', True), (PyStr ''a'', True),
            (PyList [PyStr ''ab'', PyStr ''cd''], True)]
   \<and> (\<exists>r. snd (WrappedHuggingfaceTransformer_encode argsort_stable
            (\<lambda>batch projection. Inr (map (\<lambda>t. (t, projection)) batch))
            [PyStr ''abc'', PyStr ''a'', PyList [PyStr ''ab'', PyStr ''cd''] ] 2 PyNone
            (PyBool True) (PyBool True)) = Inr r
        \<and> rows r = [(PyStr ''abc'', False), (PyStr ''a'', False),
                     (PyList [PyStr ''ab'', PyStr ''cd''], False)])
   \<and> (\<exists>r. snd (WrappedOpenCLIPTransformer_encode module_globals argsort_stable
            (\<lambda>batch projection. Inr (map (\<lambda>t. (t, projection)) batch))
            [PyStr ''abc'', PyStr ''a'', PyList [PyStr ''ab'', PyStr ''cd''] ] 2 PyNone
            (PyBool True) (PyBool True)) = Inr r
        \<and> rows r = [(PyStr ''abc'', True), (PyStr ''a'', True),
                     (PyList [PyStr ''ab'', PyStr ''cd''], True)])"
proof -
  have wf: "\<forall>s \<in> set [PyStr ''abc'', PyStr ''a'', PyList [PyStr ''ab'', PyStr ''cd''] ].
      \<not> isl (WrappedHuggingfaceTransformer_text_length s)"
    by (simp add: WrappedHuggingfaceTransformer_text_length_def)
  have b: "(0::int) < 2" by simp
  have enc: "\<forall>batch projection.
      (\<lambda>batch projection. Inr (map (\<lambda>t. (t, projection)) batch)) batch projection
        = (Inr (map ((\<lambda>p t. (t, p)) projection) batch) :: error + (pyval \<times> bool) list)"
    by simp
  have spb: "\<not> truthy PyNone" by simp
  have ne: "[PyStr ''abc'', PyStr ''a'', PyList [PyStr ''ab'', PyStr ''cd''] ] \<noteq> []
      \<or> \<not> truthy (PyBool True)"
    by simp
  show ?thesis
    using encode_restores_input_order [OF argsort_stable_ok b wf enc spb ne,
        of module_globals "PyBool True"]
      argsort_stable_ok wf
    by simp
qed

section \<open>Batches of the encode operation\<close>

text \<open>
  C4. With a positive batch size (and an \<open>argsort\<close> meeting its contract, items that have
  an estimated length and a primitive that does not fail), the calls \<open>encode\<close> makes to
  \<open>encode_text\<close> are, in order, the chunks \<open>sentences_sorted[k*batch_size : (k+1)*batch_size]\<close>:
  they are non-empty, of at most \<open>batch_size\<close> items, and concatenate to
  \<open>sentences_sorted\<close>; there is one call per chunk, and what the loop accumulates in
  \<open>all_embeddings\<close> is the concatenation of what the primitive returned for each chunk,
  from which the result of \<open>encode\<close> is built. If \<open>batch_size\<close> is at least the number
  of items of a non-empty input there is exactly one call, and one item gives one batch
  of size 1.
\<close>

theorem encode_batches:
  assumes ok: "argsort_ok argsort" and b: "0 < batch_size"
    and wf: "\<forall>s \<in> set sentences. \<not> isl (WrappedHuggingfaceTransformer_text_length s)"
    and enc: "\<forall>batch projection. \<not> isl (encode_text batch projection)"
  shows "\<exists>idx ss calls.
      hf_sort_stage argsort sentences = Inr (idx, ss)
    \<and> fst (WrappedHuggingfaceTransformer_encode argsort encode_text sentences batch_size
          show_progress_bar convert_to_numpy convert_to_tensor) = calls
    \<and> calls = map (\<lambda>k. (take (nat batch_size) (drop (k * nat batch_size) ss), False))
          [0..<(length sentences + nat batch_size - 1) div nat batch_size]
    \<and> concat (map fst calls) = ss
    \<and> (\<forall>c \<in> set calls. fst c \<noteq> [] \<and> int (length (fst c)) \<le> batch_size)
    \<and> (sentences \<noteq> [] \<and> int (length sentences) \<le> batch_size \<longrightarrow> calls = [(ss, False)])
    \<and> (\<forall>x. sentences = [x] \<longrightarrow> calls = [([x], False)])
    \<and> hf_batch_loop encode_text ss batch_size
          (map (\<lambda>k. k * nat batch_size)
             [0..<(length sentences + nat batch_size - 1) div nat batch_size]) [] []
        = (calls, Inr (concat (map (\<lambda>c. projr (encode_text (fst c) False)) calls)))
    \<and> snd (hf_all_embeddings argsort encode_text sentences batch_size)
        = map_result
            (py_getitem (concat (map (\<lambda>c. projr (encode_text (fst c) False)) calls)))
            (argsort idx)
    \<and> snd (WrappedHuggingfaceTransformer_encode argsort encode_text sentences batch_size
          show_progress_bar convert_to_numpy convert_to_tensor)
        = (case map_result
                  (py_getitem (concat (map (\<lambda>c. projr (encode_text (fst c) False)) calls)))
                  (argsort idx) of
             Inl e \<Rightarrow> Inl e
           | Inr all_embeddings \<Rightarrow>
               if truthy convert_to_tensor then torch_stack all_embeddings
               else if truthy convert_to_numpy then np_asarray all_embeddings
               else Inr (RowList all_embeddings))"
proof -
  obtain idx ss where st: "hf_sort_stage argsort sentences = Inr (idx, ss)"
    using hf_sort_stage_ok [OF ok wf] by blast
  note p = hf_sort_stage_perm [OF ok wf st]
  let ?b = "nat batch_size"
  let ?m = "(length sentences + ?b - 1) div ?b"
  let ?calls = "map (\<lambda>k. (take ?b (drop (k * ?b) ss), False)) [0..<?m]"
  have b': "0 < ?b" using b by simp
  have len: "length ss = length sentences"
    using p(1,2) is_perm_length by simp
  have calls: "fst (WrappedHuggingfaceTransformer_encode argsort encode_text sentences
      batch_size show_progress_bar convert_to_numpy convert_to_tensor) = ?calls"
    by (simp only: hf_encode_fst hf_calls [OF ok b wf enc st])
  have part: "concat (map fst ?calls) = ss"
    using chunks_partition [OF b', of ss] len by (simp add: comp_def)
  have size: "\<forall>c \<in> set ?calls. fst c \<noteq> [] \<and> int (length (fst c)) \<le> batch_size"
  proof
    fix c assume "c \<in> set ?calls"
    then obtain k where k: "k < ?m" and c: "c = (take ?b (drop (k * ?b) ss), False)"
      by auto
    from k have k': "k < (length ss + ?b - 1) div ?b" by (simp only: len)
    have "length (take ?b (drop (k * ?b) ss)) \<le> ?b"
      using chunk_nonempty(2) [OF b' k'] .
    then have "int (length (take ?b (drop (k * ?b) ss))) \<le> batch_size"
      using b by linarith
    with chunk_nonempty(1) [OF b' k'] c
    show "fst c \<noteq> [] \<and> int (length (fst c)) \<le> batch_size" by simp
  qed
  have one: "?calls = [(ss, False)]" if "sentences \<noteq> []" and "int (length sentences) \<le> batch_size"
  proof -
    have n: "0 < length sentences" and le: "length sentences \<le> ?b"
      using that by simp_all
    have "?m = 1" using single_chunk [OF n le] .
    then show ?thesis using le len by simp
  qed
  have single: "?calls = [([x], False)]" if x: "sentences = [x]" for x
  proof -
    have "idx = [0]"
      using p(3) argsort_ok_single [OF ok] x by simp
    then have "ss = [x]" using p(2) x by simp
    moreover have "?calls = [(ss, False)]"
      using one x b by simp
    ultimately show ?thesis by simp
  qed
  let ?g = "\<lambda>batch. projr (encode_text batch False)"
  let ?all = "concat (map (\<lambda>c. projr (encode_text (fst c) False)) ?calls)"
  have all: "?all = concat (map (\<lambda>k. ?g (take ?b (drop (k * ?b) ss))) [0..<?m])"
    by (simp add: comp_def)
  have loop: "hf_batch_loop encode_text ss batch_size (map (\<lambda>k. k * ?b) [0..<?m]) [] []
      = (?calls, Inr ?all)"
    using hf_batch_loop_range [of batch_size encode_text ?g ss ?m, OF b primitive_total [OF enc]]
    by (simp only: all)
  have res: "snd (hf_all_embeddings argsort encode_text sentences batch_size)
      = map_result (py_getitem ?all) (argsort idx)"
    using hf_all_embeddings_unfold [of batch_size encode_text ?g, OF b primitive_total [OF enc] st]
    by (simp only: all snd_conv)
  have out: "snd (WrappedHuggingfaceTransformer_encode argsort encode_text sentences batch_size
        show_progress_bar convert_to_numpy convert_to_tensor)
      = (case map_result (py_getitem ?all) (argsort idx) of
           Inl e \<Rightarrow> Inl e
         | Inr all_embeddings \<Rightarrow>
             if truthy convert_to_tensor then torch_stack all_embeddings
             else if truthy convert_to_numpy then np_asarray all_embeddings
             else Inr (RowList all_embeddings))"
    by (simp only: hf_encode_snd res)
  show ?thesis
  proof (intro exI conjI)
    show "hf_sort_stage argsort sentences = Inr (idx, ss)" by (rule st)
    show "hf_batch_loop encode_text ss batch_size (map (\<lambda>k. k * ?b) [0..<?m]) [] []
      = (?calls, Inr ?all)"
      by (rule loop)
    show "snd (hf_all_embeddings argsort encode_text sentences batch_size)
      = map_result (py_getitem ?all) (argsort idx)"
      by (rule res)
    show "snd (WrappedHuggingfaceTransformer_encode argsort encode_text sentences batch_size
        show_progress_bar convert_to_numpy convert_to_tensor)
      = (case map_result (py_getitem ?all) (argsort idx) of
           Inl e \<Rightarrow> Inl e
         | Inr all_embeddings \<Rightarrow>
             if truthy convert_to_tensor then torch_stack all_embeddings
             else if truthy convert_to_numpy then np_asarray all_embeddings
             else Inr (RowList all_embeddings))"
      by (rule out)
    show "fst (WrappedHuggingfaceTransformer_encode argsort encode_text sentences
      batch_size show_progress_bar convert_to_numpy convert_to_tensor) = ?calls"
      by (rule calls)
    show "?calls = ?calls" by (rule refl)
    show "concat (map fst ?calls) = ss" by (rule part)
    show "\<forall>c \<in> set ?calls. fst c \<noteq> [] \<and> int (length (fst c)) \<le> batch_size"
      by (rule size)
    show "sentences \<noteq> [] \<and> int (length sentences) \<le> batch_size \<longrightarrow> ?calls = [(ss, False)]"
      using one by blast
    show "\<forall>x. sentences = [x] \<longrightarrow> ?calls = [([x], False)]"
      using single by blast
  qed
qed

text \<open>Three items in batches of 2 give two calls; one item with the default batch size
  of 32 gives one call on a batch of size 1. The primitive tags each text with the
  \<open>projection\<close> flag it received, so the rows of the result show that it was applied.\<close>

theorem encode_batches_witness:
  "argsort_ok argsort_stable \<and> (0::int) < 2 \<and> (0::int) < 32
   \<and> \<not> isl (WrappedHuggingfaceTransformer_text_length (PyStr ''abc''))
   \<and> \<not> isl (WrappedHuggingfaceTransformer_text_length (PyStr ''a''))
   \<and> \<not> isl (WrappedHuggingfaceTransformer_text_length (PyList [PyStr ''ab'', PyStr ''cd'']))
   \<and> WrappedHuggingfaceTransformer_encode argsort_stable
        (\<lambda>batch projection. Inr (map (\<lambda>t. (t, projection)) batch))
        [PyStr ''abc'', PyStr ''a'', PyList [PyStr ''ab'', PyStr ''cd''] ] 2 PyNone
        (PyBool True) (PyBool True)
     = ([([PyStr ''a'', PyStr ''abc''], False), ([PyList [PyStr ''ab'', PyStr ''cd''] ], False)],
        Inr (Tensor [(PyStr ''abc'', False), (PyStr ''a'', False),
                     (PyList [PyStr ''ab'', PyStr ''cd''], False)]))
   \<and> [PyStr ''a''] \<noteq> [] \<and> int (length [PyStr ''a'']) \<le> 32
   \<and> WrappedHuggingfaceTransformer_encode argsort_stable
        (\<lambda>batch projection. Inr (map (\<lambda>t. (t, projection)) batch))
        [PyStr ''a''] 32 PyNone (PyBool True) (PyBool True)
     = ([([PyStr ''a''], False)], Inr (Tensor [(PyStr ''a'', False)]))"
proof -
  let ?E = "\<lambda>batch projection. Inr (map (\<lambda>t. (t, projection)) batch)
      :: error + (pyval \<times> bool) list"
  let ?S = "[PyStr ''abc'', PyStr ''a'', PyList [PyStr ''ab'', PyStr ''cd''] ]"
  have wf: "\<forall>s \<in> set ?S. \<not> isl (WrappedHuggingfaceTransformer_text_length s)"
    by (simp add: WrappedHuggingfaceTransformer_text_length_def)
  have wf1: "\<forall>s \<in> set [PyStr ''a'']. \<not> isl (WrappedHuggingfaceTransformer_text_length s)"
    by (simp add: WrappedHuggingfaceTransformer_text_length_def)
  have b: "(0::int) < 2" and b32: "(0::int) < 32" by simp_all
  have enc: "\<forall>batch projection. \<not> isl (?E batch projection)" by simp
  have st: "hf_sort_stage argsort_stable ?S
      = Inr ([1, 0, 2], [PyStr ''a'', PyStr ''abc'', PyList [PyStr ''ab'', PyStr ''cd''] ])"
    by (simp add: hf_sort_stage_def WrappedHuggingfaceTransformer_text_length_def
        argsort_stable_def py_getitem_def upt_rec)
  have inv: "argsort_stable [1, 0, 2] = [1, 0, 2]"
    by (simp add: argsort_stable_def upt_rec)
  have st1: "hf_sort_stage argsort_stable [PyStr ''a''] = Inr ([0], [PyStr ''a''])"
    by (simp add: hf_sort_stage_def WrappedHuggingfaceTransformer_text_length_def
        argsort_stable_def py_getitem_def upt_rec)
  have inv1: "argsort_stable [0] = [0]"
    by (simp add: argsort_stable_def upt_rec)
  have two: "WrappedHuggingfaceTransformer_encode argsort_stable ?E ?S 2 PyNone
      (PyBool True) (PyBool True)
      = ([([PyStr ''a'', PyStr ''abc''], False), ([PyList [PyStr ''ab'', PyStr ''cd''] ], False)],
         Inr (Tensor [(PyStr ''abc'', False), (PyStr ''a'', False),
                      (PyList [PyStr ''ab'', PyStr ''cd''], False)]))"
  proof -
    obtain idx ss calls where
      s: "hf_sort_stage argsort_stable ?S = Inr (idx, ss)"
      and c: "fst (WrappedHuggingfaceTransformer_encode argsort_stable ?E ?S 2 PyNone
          (PyBool True) (PyBool True)) = calls"
      and cd: "calls = map (\<lambda>k. (take (nat 2) (drop (k * nat 2) ss), False))
          [0..<(length ?S + nat 2 - 1) div nat 2]"
      and r: "snd (WrappedHuggingfaceTransformer_encode argsort_stable ?E ?S 2 PyNone
          (PyBool True) (PyBool True))
        = (case map_result
                  (py_getitem (concat (map (\<lambda>c. projr (?E (fst c) False)) calls)))
                  (argsort_stable idx) of
             Inl e \<Rightarrow> Inl e
           | Inr all_embeddings \<Rightarrow>
               if truthy (PyBool True) then torch_stack all_embeddings
               else if truthy (PyBool True) then np_asarray all_embeddings
               else Inr (RowList all_embeddings))"
      using encode_batches [OF argsort_stable_ok b wf enc, of PyNone "PyBool True" "PyBool True"]
      by blast
    from s st have i: "idx = [1, 0, 2]"
      and ss: "ss = [PyStr ''a'', PyStr ''abc'', PyList [PyStr ''ab'', PyStr ''cd''] ]"
      by simp_all
    have calls: "calls = [([PyStr ''a'', PyStr ''abc''], False),
        ([PyList [PyStr ''ab'', PyStr ''cd''] ], False)]"
      unfolding cd ss by (simp add: upt_rec)
    have res: "snd (WrappedHuggingfaceTransformer_encode argsort_stable ?E ?S 2 PyNone
        (PyBool True) (PyBool True))
      = Inr (Tensor [(PyStr ''abc'', False), (PyStr ''a'', False),
                     (PyList [PyStr ''ab'', PyStr ''cd''], False)])"
      unfolding r calls i inv by (simp add: py_getitem_def torch_stack_def)
    from c calls res show ?thesis by (simp add: prod_eq_iff)
  qed
  have one: "WrappedHuggingfaceTransformer_encode argsort_stable ?E [PyStr ''a''] 32
      PyNone (PyBool True) (PyBool True)
      = ([([PyStr ''a''], False)], Inr (Tensor [(PyStr ''a'', False)]))"
  proof -
    obtain idx ss calls where
      s: "hf_sort_stage argsort_stable [PyStr ''a''] = Inr (idx, ss)"
      and c: "fst (WrappedHuggingfaceTransformer_encode argsort_stable ?E [PyStr ''a''] 32
          PyNone (PyBool True) (PyBool True)) = calls"
      and cd: "\<forall>x. [PyStr ''a''] = [x] \<longrightarrow> calls = [([x], False)]"
      and r: "snd (WrappedHuggingfaceTransformer_encode argsort_stable ?E [PyStr ''a''] 32
          PyNone (PyBool True) (PyBool True))
        = (case map_result
                  (py_getitem (concat (map (\<lambda>c. projr (?E (fst c) False)) calls)))
                  (argsort_stable idx) of
             Inl e \<Rightarrow> Inl e
           | Inr all_embeddings \<Rightarrow>
               if truthy (PyBool True) then torch_stack all_embeddings
               else if truthy (PyBool True) then np_asarray all_embeddings
               else Inr (RowList all_embeddings))"
      using encode_batches [OF argsort_stable_ok b32 wf1 enc, of PyNone "PyBool True" "PyBool True"]
      by blast
    from s st1 have i: "idx = [0]" by simp
    have calls: "calls = [([PyStr ''a''], False)]" using cd by simp
    have res: "snd (WrappedHuggingfaceTransformer_encode argsort_stable ?E [PyStr ''a''] 32
        PyNone (PyBool True) (PyBool True)) = Inr (Tensor [(PyStr ''a'', False)])"
      unfolding r calls i inv1 by (simp add: py_getitem_def torch_stack_def)
    from c calls res show ?thesis by (simp add: prod_eq_iff)
  qed
  show ?thesis
    using argsort_stable_ok wf two one by simp
qed

section \<open>The sorting permutation\<close>

lemma mset_map_perm:
  assumes "is_perm idx (length xs)"
  shows "mset (map (\<lambda>i. xs ! i) idx) = mset xs"
proof -
  have "mset idx = mset [0..<length xs]"
    using assms by (intro set_eq_iff_mset_eq_distinct [THEN iffD1]) (simp_all add: is_perm_def)
  then have "mset (map (\<lambda>i. xs ! i) idx) = mset (map (\<lambda>i. xs ! i) [0..<length xs])"
    by (simp only: mset_map)
  then show ?thesis by (simp only: map_nth)
qed

text \<open>
  Lines 42--43 and 109--110. For every \<open>argsort\<close> that meets NumPy's contract and items
  that have an estimated length, \<open>length_sorted_idx\<close> is a permutation of the positions,
  \<open>sentences_sorted\<close> is the input rearranged by it, and the estimated lengths along
  \<open>sentences_sorted\<close> are ascending, in both wrappers.
\<close>

theorem sort_stage_ascending:
  assumes ok: "argsort_ok argsort"
    and wf: "\<forall>s \<in> set sentences. \<not> isl (WrappedHuggingfaceTransformer_text_length s)"
  shows "\<exists>idx ss.
      hf_sort_stage argsort sentences = Inr (idx, ss)
    \<and> clip_sort_stage argsort sentences = Inr (idx, ss)
    \<and> is_perm idx (length sentences)
    \<and> ss = map (\<lambda>i. sentences ! i) idx
    \<and> mset ss = mset sentences
    \<and> sorted (map (\<lambda>s. projr (WrappedHuggingfaceTransformer_text_length s)) ss)"
proof -
  let ?len = "\<lambda>s. projr (WrappedHuggingfaceTransformer_text_length s)"
  obtain idx ss where st: "hf_sort_stage argsort sentences = Inr (idx, ss)"
    using hf_sort_stage_ok [OF ok wf] by blast
  note p = hf_sort_stage_perm [OF ok wf st]
  have in_range: "\<forall>i \<in> set idx. i < length sentences"
    using p(1) by (simp add: is_perm_def)
  have "map ?len ss = map (\<lambda>i. ?len (sentences ! i)) idx"
    using p(2) by (simp add: comp_def)
  also have "\<dots> = map (\<lambda>i. map ?len sentences ! i) idx"
    using in_range by (intro map_cong) simp_all
  finally have "map ?len ss = map (\<lambda>i. map ?len sentences ! i) (argsort (map ?len sentences))"
    using p(3) by simp
  then have asc: "sorted (map ?len ss)"
    using argsort_ok_sorted [OF ok, of "map ?len sentences"] by simp
  have perm: "mset ss = mset sentences"
    using mset_map_perm [OF p(1)] p(2) by simp
  show ?thesis
  proof (intro exI conjI)
    show "hf_sort_stage argsort sentences = Inr (idx, ss)" by (rule st)
    show "clip_sort_stage argsort sentences = Inr (idx, ss)"
      by (simp only: clip_sort_stage_eq st)
    show "is_perm idx (length sentences)" by (rule p(1))
    show "ss = map (\<lambda>i. sentences ! i) idx" by (rule p(2))
    show "mset ss = mset sentences" by (rule perm)
    show "sorted (map ?len ss)" by (rule asc)
  qed
qed

theorem sort_stage_ascending_witness:
  "argsort_ok argsort_ties_reversed
   \<and> \<not> isl (WrappedHuggingfaceTransformer_text_length (PyStr ''abc''))
   \<and> \<not> isl (WrappedHuggingfaceTransformer_text_length (PyStr ''a''))
   \<and> \<not> isl (WrappedHuggingfaceTransformer_text_length (PyStr ''xyz''))
   \<and> hf_sort_stage argsort_ties_reversed [PyStr ''abc'', PyStr ''a'', PyStr ''xyz'']
       = Inr ([1, 2, 0], [PyStr ''a'', PyStr ''xyz'', PyStr ''abc''])
   \<and> clip_sort_stage argsort_ties_reversed [PyStr ''abc'', PyStr ''a'', PyStr ''xyz'']
       = Inr ([1, 2, 0], [PyStr ''a'', PyStr ''xyz'', PyStr ''abc''])
   \<and> sorted (map (\<lambda>s. projr (WrappedHuggingfaceTransformer_text_length s))
        [PyStr ''a'', PyStr ''xyz'', PyStr ''abc''])"
proof -
  let ?S = "[PyStr ''abc'', PyStr ''a'', PyStr ''xyz'']"
  have wf: "\<forall>s \<in> set ?S. \<not> isl (WrappedHuggingfaceTransformer_text_length s)"
    by (simp add: WrappedHuggingfaceTransformer_text_length_def)
  have st: "hf_sort_stage argsort_ties_reversed ?S
      = Inr ([1, 2, 0], [PyStr ''a'', PyStr ''xyz'', PyStr ''abc''])"
    by (simp add: hf_sort_stage_def WrappedHuggingfaceTransformer_text_length_def
        argsort_ties_reversed_def py_getitem_def upt_rec)
  show ?thesis
    using sort_stage_ascending [OF argsort_ties_reversed_ok wf] argsort_ties_reversed_ok wf st
    by auto
qed

text \<open>
  The contract does not fix the order of items of equal estimated length:
  \<open>argsort_ties_reversed\<close> meets it and puts the later of two such items first. Which
  order \<open>np.argsort\<close> of the default kind gives on ties is decided by NumPy's sorting
  code, of which only the contract is assumed here.
\<close>

lemma argsort_contract_leaves_ties_open:
  "argsort_ok argsort_ties_reversed
   \<and> map_result WrappedHuggingfaceTransformer_text_length [PyStr ''ab'', PyStr ''cd'']
       = Inr [2, 2]
   \<and> hf_sort_stage argsort_ties_reversed [PyStr ''ab'', PyStr ''cd'']
       = Inr ([1, 0], [PyStr ''cd'', PyStr ''ab''])
   \<and> clip_sort_stage argsort_ties_reversed [PyStr ''ab'', PyStr ''cd'']
       = Inr ([1, 0], [PyStr ''cd'', PyStr ''ab''])"
proof -
  have "map_result WrappedHuggingfaceTransformer_text_length [PyStr ''ab'', PyStr ''cd'']
      = Inr [2, 2]"
    by (simp add: WrappedHuggingfaceTransformer_text_length_def)
  moreover have "hf_sort_stage argsort_ties_reversed [PyStr ''ab'', PyStr ''cd'']
      = Inr ([1, 0], [PyStr ''cd'', PyStr ''ab''])"
    by (simp add: hf_sort_stage_def WrappedHuggingfaceTransformer_text_length_def
        argsort_ties_reversed_def py_getitem_def upt_rec)
  ultimately show ?thesis
    using argsort_ties_reversed_ok by (simp add: clip_sort_stage_eq)
qed

section \<open>The empty input\<close>

lemma hf_all_embeddings_Nil:
  assumes "argsort_ok argsort" and "batch_size \<noteq> 0"
  shows "hf_all_embeddings argsort encode_text [] batch_size = ([], Inr [])"
  using assms
  by (simp add: hf_all_embeddings_def hf_sort_stage_def argsort_ok_Nil py_range0_def)

lemma clip_all_embeddings_Nil:
  assumes "argsort_ok argsort" and "batch_size \<noteq> 0" and "\<not> truthy show_progress_bar"
  shows "clip_all_embeddings names argsort encode_text [] batch_size show_progress_bar
     = ([], Inr [])"
  using assms
  by (simp add: clip_all_embeddings_def clip_sort_stage_def argsort_ok_Nil clip_iterator_def
      py_range0_def)

text \<open>
  C5. On the empty input with the default arguments (\<open>batch_size=32\<close>,
  \<open>show_progress_bar=None\<close>, \<open>convert_to_numpy=True\<close>, \<open>convert_to_tensor=True\<close>) both
  wrappers reach \<open>torch.stack([])\<close>, which raises; no batch is encoded. With
  \<open>convert_to_tensor=False\<close> the same call returns an empty array, or an empty list.
\<close>

theorem encode_empty_input:
  assumes ok: "argsort_ok argsort"
  shows "WrappedHuggingfaceTransformer_encode argsort encode_text [] 32 PyNone
        (PyBool True) (PyBool True) = ([], Inl RuntimeError)
     \<and> WrappedOpenCLIPTransformer_encode module_globals argsort encode_text [] 32 PyNone
        (PyBool True) (PyBool True) = ([], Inl RuntimeError)
     \<and> WrappedHuggingfaceTransformer_encode argsort encode_text [] 32 PyNone
        (PyBool True) (PyBool False) = ([], Inr (NDArray []))
     \<and> WrappedHuggingfaceTransformer_encode argsort encode_text [] 32 PyNone
        (PyBool False) (PyBool False) = ([], Inr (RowList []))"
proof -
  have hf: "hf_all_embeddings argsort encode_text [] 32 = ([], Inr [])"
    by (rule hf_all_embeddings_Nil [OF ok]) simp
  have clip: "clip_all_embeddings module_globals argsort encode_text [] 32 PyNone = ([], Inr [])"
    by (rule clip_all_embeddings_Nil [OF ok]) simp_all
  show ?thesis
    by (simp add: WrappedHuggingfaceTransformer_encode_def WrappedOpenCLIPTransformer_encode_def
        hf clip torch_stack_def np_asarray_def)
qed

theorem encode_empty_input_witness:
  "argsort_ok argsort_stable
   \<and> WrappedHuggingfaceTransformer_encode argsort_stable
        (\<lambda>batch projection. Inr (map (\<lambda>t. (t, projection)) batch)) [] 32 PyNone
        (PyBool True) (PyBool True) = ([], Inl RuntimeError)
   \<and> WrappedOpenCLIPTransformer_encode module_globals argsort_stable
        (\<lambda>batch projection. Inr (map (\<lambda>t. (t, projection)) batch)) [] 32 PyNone
        (PyBool True) (PyBool True) = ([], Inl RuntimeError)"
  using encode_empty_input [OF argsort_stable_ok,
      of "\<lambda>batch projection. Inr (map (\<lambda>t. (t, projection)) batch)"]
    argsort_stable_ok
  by simp

section \<open>Conversion of the result\<close>

text \<open>
  C10. In both wrappers a truthy \<open>convert_to_tensor\<close> makes the outcome independent of
  \<open>convert_to_numpy\<close>, and a value returned then is a stacked tensor; a NumPy array is
  returned exactly when \<open>convert_to_tensor\<close> is falsy and \<open>convert_to_numpy\<close> truthy.
\<close>

theorem convert_to_tensor_precedence:
  "(truthy convert_to_tensor \<longrightarrow>
      WrappedHuggingfaceTransformer_encode argsort encode_text sentences batch_size
          show_progress_bar convert_to_numpy convert_to_tensor
        = WrappedHuggingfaceTransformer_encode argsort encode_text sentences batch_size
            show_progress_bar convert_to_numpy' convert_to_tensor
      \<and> WrappedOpenCLIPTransformer_encode names argsort encode_text sentences batch_size
          show_progress_bar convert_to_numpy convert_to_tensor
        = WrappedOpenCLIPTransformer_encode names argsort encode_text sentences batch_size
            show_progress_bar convert_to_numpy' convert_to_tensor
      \<and> (\<forall>r. snd (WrappedHuggingfaceTransformer_encode argsort encode_text sentences batch_size
                 show_progress_bar convert_to_numpy convert_to_tensor) = Inr r
             \<longrightarrow> (\<exists>es. r = Tensor es))
      \<and> (\<forall>r. snd (WrappedOpenCLIPTransformer_encode names argsort encode_text sentences
                 batch_size show_progress_bar convert_to_numpy convert_to_tensor) = Inr r
             \<longrightarrow> (\<exists>es. r = Tensor es)))
   \<and> (\<forall>r. snd (WrappedHuggingfaceTransformer_encode argsort encode_text sentences batch_size
              show_progress_bar convert_to_numpy convert_to_tensor) = Inr r
          \<longrightarrow> ((\<exists>es. r = NDArray es) \<longleftrightarrow> \<not> truthy convert_to_tensor \<and> truthy convert_to_numpy))
   \<and> (\<forall>r. snd (WrappedOpenCLIPTransformer_encode names argsort encode_text sentences
              batch_size show_progress_bar convert_to_numpy convert_to_tensor) = Inr r
          \<longrightarrow> ((\<exists>es. r = NDArray es) \<longleftrightarrow> \<not> truthy convert_to_tensor \<and> truthy convert_to_numpy))"
proof -
  obtain c1 r1 where hf: "hf_all_embeddings argsort encode_text sentences batch_size = (c1, r1)"
    by (cases "hf_all_embeddings argsort encode_text sentences batch_size")
  obtain c2 r2 where clip: "clip_all_embeddings names argsort encode_text sentences batch_size
      show_progress_bar = (c2, r2)"
    by (cases "clip_all_embeddings names argsort encode_text sentences batch_size
      show_progress_bar")
  show ?thesis
    by (cases r1; cases r2)
      (auto simp: WrappedHuggingfaceTransformer_encode_def WrappedOpenCLIPTransformer_encode_def
        hf clip torch_stack_def np_asarray_def)
qed

text \<open>One string with the default batch size: the default flags give a tensor whatever
  \<open>convert_to_numpy\<close> is; \<open>convert_to_tensor=False\<close> with \<open>convert_to_numpy=True\<close> gives an
  array.\<close>

theorem convert_to_tensor_precedence_witness:
  "truthy (PyBool True) \<and> \<not> truthy (PyBool False)
   \<and> WrappedHuggingfaceTransformer_encode argsort_stable
        (\<lambda>batch projection. Inr (map (\<lambda>t. (t, projection)) batch)) [PyStr ''a''] 32 PyNone
        (PyBool True) (PyBool True)
     = ([([PyStr ''a''], False)], Inr (Tensor [(PyStr ''a'', False)]))
   \<and> WrappedHuggingfaceTransformer_encode argsort_stable
        (\<lambda>batch projection. Inr (map (\<lambda>t. (t, projection)) batch)) [PyStr ''a''] 32 PyNone
        (PyBool False) (PyBool True)
     = ([([PyStr ''a''], False)], Inr (Tensor [(PyStr ''a'', False)]))
   \<and> WrappedHuggingfaceTransformer_encode argsort_stable
        (\<lambda>batch projection. Inr (map (\<lambda>t. (t, projection)) batch)) [PyStr ''a''] 32 PyNone
        (PyBool True) (PyBool False)
     = ([([PyStr ''a''], False)], Inr (NDArray [(PyStr ''a'', False)]))
   \<and> WrappedOpenCLIPTransformer_encode module_globals argsort_stable
        (\<lambda>batch projection. Inr (map (\<lambda>t. (t, projection)) batch)) [PyStr ''a''] 32 PyNone
        (PyBool False) (PyBool True)
     = ([([PyStr ''a''], True)], Inr (Tensor [(PyStr ''a'', True)]))
   \<and> WrappedOpenCLIPTransformer_encode module_globals argsort_stable
        (\<lambda>batch projection. Inr (map (\<lambda>t. (t, projection)) batch)) [PyStr ''a''] 32 PyNone
        (PyBool True) (PyBool False)
     = ([([PyStr ''a''], True)], Inr (NDArray [(PyStr ''a'', True)]))"
proof -
  let ?E = "\<lambda>batch projection. Inr (map (\<lambda>t. (t, projection)) batch)
      :: error + (pyval \<times> bool) list"
  have hf: "hf_all_embeddings argsort_stable ?E [PyStr ''a''] 32
      = ([([PyStr ''a''], False)], Inr [(PyStr ''a'', False)])"
    by (simp add: hf_all_embeddings_def hf_sort_stage_def
        WrappedHuggingfaceTransformer_text_length_def argsort_stable_def py_getitem_def
        py_range0_def py_slice_def upt_rec)
  have clip: "clip_all_embeddings module_globals argsort_stable ?E [PyStr ''a''] 32 PyNone
      = ([([PyStr ''a''], True)], Inr [(PyStr ''a'', True)])"
    by (simp add: clip_all_embeddings_def clip_sort_stage_def clip_iterator_def
        WrappedOpenCLIPTransformer_text_length_def argsort_stable_def py_getitem_def
        py_range0_def py_slice_def upt_rec)
  have t: "truthy (PyBool True)" and f: "\<not> truthy (PyBool False)" by simp_all
  show ?thesis
    using convert_to_tensor_precedence [of "PyBool True" argsort_stable ?E "[PyStr ''a'']" 32
        PyNone "PyBool True" "PyBool False" module_globals]
      convert_to_tensor_precedence [of "PyBool False" argsort_stable ?E "[PyStr ''a'']" 32
        PyNone "PyBool True" "PyBool True" module_globals]
      t f
    by (simp add: WrappedHuggingfaceTransformer_encode_def WrappedOpenCLIPTransformer_encode_def
        hf clip torch_stack_def np_asarray_def)
qed

section \<open>The progress bar\<close>

lemma tqdm_unbound: "lookup_name module_globals ''tqdm'' = Inl NameError"
  by (simp add: lookup_name_def module_globals_def)

text \<open>
  C9. \<open>tqdm\<close> is not bound in the module. For items that have an estimated length (and an
  \<open>argsort\<close> meeting its contract) \<open>WrappedOpenCLIPTransformer.encode\<close> with a truthy
  \<open>show_progress_bar\<close> raises \<open>NameError\<close> before any call to \<open>encode_text\<close>; with a falsy
  one its outcome does not depend on the names bound in the module; and
  \<open>WrappedHuggingfaceTransformer.encode\<close> does not depend on \<open>show_progress_bar\<close>.
\<close>

theorem clip_progress_bar_name_error:
  assumes ok: "argsort_ok argsort"
    and wf: "\<forall>s \<in> set sentences. \<not> isl (WrappedOpenCLIPTransformer_text_length s)"
  shows "(truthy show_progress_bar \<longrightarrow>
        WrappedOpenCLIPTransformer_encode module_globals argsort encode_text sentences
          batch_size show_progress_bar convert_to_numpy convert_to_tensor
        = ([], Inl NameError))
     \<and> (\<not> truthy show_progress_bar \<longrightarrow>
        WrappedOpenCLIPTransformer_encode names argsort encode_text sentences
          batch_size show_progress_bar convert_to_numpy convert_to_tensor
        = WrappedOpenCLIPTransformer_encode names' argsort encode_text sentences
          batch_size show_progress_bar convert_to_numpy convert_to_tensor)
     \<and> WrappedHuggingfaceTransformer_encode argsort encode_text sentences batch_size
          show_progress_bar convert_to_numpy convert_to_tensor
        = WrappedHuggingfaceTransformer_encode argsort encode_text sentences batch_size
          show_progress_bar' convert_to_numpy convert_to_tensor"
proof -
  have wf': "\<forall>s \<in> set sentences. \<not> isl (WrappedHuggingfaceTransformer_text_length s)"
    using wf by (simp only: clip_text_length_eq)
  obtain idx ss where st: "hf_sort_stage argsort sentences = Inr (idx, ss)"
    using hf_sort_stage_ok [OF ok wf'] by blast
  have raise: "WrappedOpenCLIPTransformer_encode module_globals argsort encode_text sentences
      batch_size show_progress_bar convert_to_numpy convert_to_tensor = ([], Inl NameError)"
    if "truthy show_progress_bar"
    using that
    by (simp add: WrappedOpenCLIPTransformer_encode_def clip_all_embeddings_def
        clip_sort_stage_eq st clip_iterator_def tqdm_unbound)
  have indep: "WrappedOpenCLIPTransformer_encode names argsort encode_text sentences
      batch_size show_progress_bar convert_to_numpy convert_to_tensor
      = WrappedOpenCLIPTransformer_encode names' argsort encode_text sentences
        batch_size show_progress_bar convert_to_numpy convert_to_tensor"
    if falsy: "\<not> truthy show_progress_bar"
  proof -
    have it: "clip_iterator names show_progress_bar n b
        = clip_iterator names' show_progress_bar n b" for n b
      using falsy by (simp add: clip_iterator_def)
    show ?thesis
      unfolding WrappedOpenCLIPTransformer_encode_def clip_all_embeddings_def it
      by (rule refl)
  qed
  have hf: "WrappedHuggingfaceTransformer_encode argsort encode_text sentences batch_size
      show_progress_bar convert_to_numpy convert_to_tensor
      = WrappedHuggingfaceTransformer_encode argsort encode_text sentences batch_size
        show_progress_bar' convert_to_numpy convert_to_tensor"
    by (simp add: WrappedHuggingfaceTransformer_encode_def)
  from raise indep hf show ?thesis by blast
qed

text \<open>One string: \<open>show_progress_bar=True\<close> raises in the OpenCLIP wrapper and changes
  nothing in the Huggingface wrapper; with \<open>None\<close> the OpenCLIP wrapper returns the same
  whether or not \<open>tqdm\<close> is bound.\<close>

theorem clip_progress_bar_name_error_witness:
  "argsort_ok argsort_stable
   \<and> \<not> isl (WrappedOpenCLIPTransformer_text_length (PyStr ''a''))
   \<and> truthy (PyBool True) \<and> \<not> truthy PyNone
   \<and> WrappedOpenCLIPTransformer_encode module_globals argsort_stable
        (\<lambda>batch projection. Inr (map (\<lambda>t. (t, projection)) batch)) [PyStr ''a''] 32
        (PyBool True) (PyBool True) (PyBool True)
     = ([], Inl NameError)
   \<and> WrappedOpenCLIPTransformer_encode module_globals argsort_stable
        (\<lambda>batch projection. Inr (map (\<lambda>t. (t, projection)) batch)) [PyStr ''a''] 32
        PyNone (PyBool True) (PyBool True)
     = WrappedOpenCLIPTransformer_encode (''tqdm'' # module_globals) argsort_stable
        (\<lambda>batch projection. Inr (map (\<lambda>t. (t, projection)) batch)) [PyStr ''a''] 32
        PyNone (PyBool True) (PyBool True)
   \<and> WrappedHuggingfaceTransformer_encode argsort_stable
        (\<lambda>batch projection. Inr (map (\<lambda>t. (t, projection)) batch)) [PyStr ''a''] 32
        (PyBool True) (PyBool True) (PyBool True)
     = WrappedHuggingfaceTransformer_encode argsort_stable
        (\<lambda>batch projection. Inr (map (\<lambda>t. (t, projection)) batch)) [PyStr ''a''] 32
        PyNone (PyBool True) (PyBool True)"
proof -
  let ?E = "\<lambda>batch projection. Inr (map (\<lambda>t. (t, projection)) batch)
      :: error + (pyval \<times> bool) list"
  have wf: "\<forall>s \<in> set [PyStr ''a'']. \<not> isl (WrappedOpenCLIPTransformer_text_length s)"
    by (simp add: WrappedOpenCLIPTransformer_text_length_def)
  have t: "truthy (PyBool True)" and f: "\<not> truthy PyNone" by simp_all
  show ?thesis
    using clip_progress_bar_name_error [OF argsort_stable_ok wf, of "PyBool True" ?E 32
        "PyBool True" "PyBool True" module_globals "''tqdm'' # module_globals" PyNone]
      clip_progress_bar_name_error [OF argsort_stable_ok wf, of PyNone ?E 32
        "PyBool True" "PyBool True" module_globals "''tqdm'' # module_globals" "PyBool True"]
      argsort_stable_ok wf t f
    by auto
qed

section \<open>The results file\<close>












section \<open>The two copies compared\<close>

lemma hf_batch_loop_flags:
  assumes "map (\<lambda>c. (fst c, False)) calls = calls"
  shows "map (\<lambda>c. (fst c, False)) (fst (hf_batch_loop encode_text ss b starts calls acc))
     = fst (hf_batch_loop encode_text ss b starts calls acc)"
  using assms
proof (induction starts arbitrary: calls acc)
  case Nil
  then show ?case by simp
next
  case (Cons s starts)
  show ?case
  proof (cases "encode_text (py_slice ss s (int s + b)) False")
    case (Inl e)
    with Cons.prems show ?thesis by (simp add: Let_def)
  next
    case (Inr es)
    have "map (\<lambda>c. (fst c, False)) (calls @ [(py_slice ss s (int s + b), False)])
        = calls @ [(py_slice ss s (int s + b), False)]"
      using Cons.prems by simp
    from Cons.IH [OF this] Inr show ?thesis by (simp add: Let_def)
  qed
qed

lemma clip_batch_loop_relabel:
  assumes agree: "\<And>batch. encode_text batch True = encode_text batch False"
  shows "clip_batch_loop encode_text ss b starts (map (\<lambda>c. (fst c, True)) calls) acc
     = (map (\<lambda>c. (fst c, True)) (fst (hf_batch_loop encode_text ss b starts calls acc)),
        snd (hf_batch_loop encode_text ss b starts calls acc))"
proof (induction starts arbitrary: calls acc)
  case Nil
  show ?case by simp
next
  case (Cons s starts)
  show ?case
  proof (cases "encode_text (py_slice ss s (int s + b)) False")
    case (Inl e)
    then show ?thesis using agree by (simp add: Let_def)
  next
    case (Inr es)
    have "clip_batch_loop encode_text ss b starts
        (map (\<lambda>c. (fst c, True)) (calls @ [(py_slice ss s (int s + b), False)])) (acc @ es)
      = (map (\<lambda>c. (fst c, True)) (fst (hf_batch_loop encode_text ss b starts
            (calls @ [(py_slice ss s (int s + b), False)]) (acc @ es))),
         snd (hf_batch_loop encode_text ss b starts
            (calls @ [(py_slice ss s (int s + b), False)]) (acc @ es)))"
      by (rule Cons.IH)
    with Inr show ?thesis using agree by (simp add: Let_def)
  qed
qed

lemma hf_all_embeddings_flags:
  "map (\<lambda>c. (fst c, False)) (fst (hf_all_embeddings argsort encode_text sentences batch_size))
   = fst (hf_all_embeddings argsort encode_text sentences batch_size)"
proof (cases "hf_sort_stage argsort sentences")
  case (Inl e)
  then show ?thesis by (simp add: hf_all_embeddings_def)
next
  case (Inr st)
  obtain idx ss where st: "st = (idx, ss)" by (cases st)
  show ?thesis
  proof (cases "py_range0 (length sentences) batch_size")
    case (Inl e)
    with Inr st show ?thesis by (simp add: hf_all_embeddings_def)
  next
    case r: (Inr starts)
    obtain cs res where l: "hf_batch_loop encode_text ss batch_size starts [] [] = (cs, res)"
      by (cases "hf_batch_loop encode_text ss batch_size starts [] []")
    have "map (\<lambda>c. (fst c, False)) cs = cs"
      using hf_batch_loop_flags [of "[]" encode_text ss batch_size starts "[]"] l by simp
    with Inr st r l show ?thesis
      by (cases res) (simp_all add: hf_all_embeddings_def)
  qed
qed

lemma clip_all_embeddings_relabel:
  assumes agree: "\<And>batch. encode_text batch True = encode_text batch False"
    and spb: "\<not> truthy show_progress_bar"
  shows "clip_all_embeddings names argsort encode_text sentences batch_size show_progress_bar
     = (map (\<lambda>c. (fst c, True)) (fst (hf_all_embeddings argsort encode_text sentences batch_size)),
        snd (hf_all_embeddings argsort encode_text sentences batch_size))"
proof (cases "hf_sort_stage argsort sentences")
  case (Inl e)
  then show ?thesis
    by (simp add: hf_all_embeddings_def clip_all_embeddings_def clip_sort_stage_eq)
next
  case (Inr st)
  obtain idx ss where st: "st = (idx, ss)" by (cases st)
  have it: "clip_iterator names show_progress_bar (length sentences) batch_size
      = py_range0 (length sentences) batch_size"
    using spb by (simp add: clip_iterator_def)
  show ?thesis
  proof (cases "py_range0 (length sentences) batch_size")
    case (Inl e)
    with Inr st it show ?thesis
      by (simp add: hf_all_embeddings_def clip_all_embeddings_def clip_sort_stage_eq)
  next
    case r: (Inr starts)
    obtain cs res where l: "hf_batch_loop encode_text ss batch_size starts [] [] = (cs, res)"
      by (cases "hf_batch_loop encode_text ss batch_size starts [] []")
    have "clip_batch_loop encode_text ss batch_size starts [] []
        = (map (\<lambda>c. (fst c, True)) cs, res)"
      using clip_batch_loop_relabel [of encode_text ss batch_size starts "[]" "[]", OF agree] l
      by simp
    with Inr st it r l show ?thesis
      by (cases res)
        (simp_all add: hf_all_embeddings_def clip_all_embeddings_def clip_sort_stage_eq)
  qed
qed

text \<open>
  C7, as the code has it. The two nested \<open>_text_length\<close> functions and the two sort
  stages are the same. With a falsy \<open>show_progress_bar\<close> and a primitive whose result does
  not depend on \<open>projection\<close>, both \<open>encode\<close> methods call the primitive on the same
  batches in the same order, \<open>WrappedHuggingfaceTransformer\<close> with \<open>projection=False\<close> and
  \<open>WrappedOpenCLIPTransformer\<close> with \<open>projection=True\<close>, and produce the same result.
\<close>

theorem encode_copies_agree:
  assumes agree: "\<forall>batch. encode_text batch True = encode_text batch False"
    and spb: "\<not> truthy show_progress_bar"
  shows "WrappedOpenCLIPTransformer_text_length t = WrappedHuggingfaceTransformer_text_length t
     \<and> clip_sort_stage argsort sentences = hf_sort_stage argsort sentences
     \<and> fst (WrappedOpenCLIPTransformer_encode names argsort encode_text sentences batch_size
            show_progress_bar convert_to_numpy convert_to_tensor)
         = map (\<lambda>c. (fst c, True))
             (fst (WrappedHuggingfaceTransformer_encode argsort encode_text sentences batch_size
                show_progress_bar convert_to_numpy convert_to_tensor))
     \<and> fst (WrappedHuggingfaceTransformer_encode argsort encode_text sentences batch_size
            show_progress_bar convert_to_numpy convert_to_tensor)
         = map (\<lambda>c. (fst c, False))
             (fst (WrappedHuggingfaceTransformer_encode argsort encode_text sentences batch_size
                show_progress_bar convert_to_numpy convert_to_tensor))
     \<and> snd (WrappedOpenCLIPTransformer_encode names argsort encode_text sentences batch_size
            show_progress_bar convert_to_numpy convert_to_tensor)
         = snd (WrappedHuggingfaceTransformer_encode argsort encode_text sentences batch_size
            show_progress_bar convert_to_numpy convert_to_tensor)"
proof -
  have a: "encode_text batch True = encode_text batch False" for batch
    using agree by simp
  note rel = clip_all_embeddings_relabel [of encode_text show_progress_bar names argsort
      sentences batch_size, OF a spb]
  have calls: "fst (WrappedOpenCLIPTransformer_encode names argsort encode_text sentences
      batch_size show_progress_bar convert_to_numpy convert_to_tensor)
      = map (\<lambda>c. (fst c, True))
          (fst (WrappedHuggingfaceTransformer_encode argsort encode_text sentences batch_size
             show_progress_bar convert_to_numpy convert_to_tensor))"
    by (simp only: clip_encode_fst hf_encode_fst rel fst_conv)
  have flags: "fst (WrappedHuggingfaceTransformer_encode argsort encode_text sentences batch_size
      show_progress_bar convert_to_numpy convert_to_tensor)
      = map (\<lambda>c. (fst c, False))
          (fst (WrappedHuggingfaceTransformer_encode argsort encode_text sentences batch_size
             show_progress_bar convert_to_numpy convert_to_tensor))"
    by (simp only: hf_encode_fst hf_all_embeddings_flags)
  have res: "snd (WrappedOpenCLIPTransformer_encode names argsort encode_text sentences
      batch_size show_progress_bar convert_to_numpy convert_to_tensor)
      = snd (WrappedHuggingfaceTransformer_encode argsort encode_text sentences batch_size
          show_progress_bar convert_to_numpy convert_to_tensor)"
    by (simp only: clip_encode_snd hf_encode_snd rel snd_conv)
  from clip_text_length_eq clip_sort_stage_eq calls flags res show ?thesis
    by (intro conjI)
qed

text \<open>Two strings in batches of 1, with the identity as the primitive.\<close>

theorem encode_copies_agree_witness:
  "\<not> truthy PyNone
   \<and> WrappedHuggingfaceTransformer_encode argsort_stable (\<lambda>batch projection. Inr batch)
        [PyStr ''abc'', PyStr ''a''] 1 PyNone (PyBool True) (PyBool True)
     = ([([PyStr ''a''], False), ([PyStr ''abc''], False)],
        Inr (Tensor [PyStr ''abc'', PyStr ''a'']))
   \<and> WrappedOpenCLIPTransformer_encode module_globals argsort_stable
        (\<lambda>batch projection. Inr batch)
        [PyStr ''abc'', PyStr ''a''] 1 PyNone (PyBool True) (PyBool True)
     = ([([PyStr ''a''], True), ([PyStr ''abc''], True)],
        Inr (Tensor [PyStr ''abc'', PyStr ''a'']))"
proof -
  let ?E = "\<lambda>batch projection. Inr batch :: error + pyval list"
  let ?S = "[PyStr ''abc'', PyStr ''a'']"
  have agree: "\<forall>batch. ?E batch True = ?E batch False" by simp
  have spb: "\<not> truthy PyNone" by simp
  have hf: "WrappedHuggingfaceTransformer_encode argsort_stable ?E ?S 1 PyNone
      (PyBool True) (PyBool True)
      = ([([PyStr ''a''], False), ([PyStr ''abc''], False)],
         Inr (Tensor [PyStr ''abc'', PyStr ''a'']))"
    by (simp add: WrappedHuggingfaceTransformer_encode_def hf_all_embeddings_def
        hf_sort_stage_def WrappedHuggingfaceTransformer_text_length_def argsort_stable_def
        py_getitem_def py_range0_def py_slice_def torch_stack_def upt_rec Let_def)
  have "WrappedOpenCLIPTransformer_encode module_globals argsort_stable ?E ?S 1 PyNone
      (PyBool True) (PyBool True)
      = ([([PyStr ''a''], True), ([PyStr ''abc''], True)],
         Inr (Tensor [PyStr ''abc'', PyStr ''a'']))"
    using encode_copies_agree [OF agree spb, of PyNone argsort_stable ?S module_globals 1
        "PyBool True" "PyBool True"]
    by (simp add: hf prod_eq_iff)
  with hf spb show ?thesis by simp
qed

text \<open>
  C7 as stated fails: on one string with the default arguments the two wrappers do not
  pass the same arguments to the primitive (\<open>projection=False\<close> against
  \<open>projection=True\<close>), and with \<open>show_progress_bar=True\<close> one returns a tensor and the
  other raises.
\<close>

theorem encode_copies_differ_counterexample:
  "fst (WrappedHuggingfaceTransformer_encode argsort_stable (\<lambda>batch projection. Inr batch)
          [PyStr ''a''] 32 PyNone (PyBool True) (PyBool True))
     = [([PyStr ''a''], False)]
   \<and> fst (WrappedOpenCLIPTransformer_encode module_globals argsort_stable
          (\<lambda>batch projection. Inr batch)
          [PyStr ''a''] 32 PyNone (PyBool True) (PyBool True))
     = [([PyStr ''a''], True)]
   \<and> WrappedHuggingfaceTransformer_encode argsort_stable (\<lambda>batch projection. Inr batch)
        [PyStr ''a''] 32 (PyBool True) (PyBool True) (PyBool True)
     = ([([PyStr ''a''], False)], Inr (Tensor [PyStr ''a'']))
   \<and> WrappedOpenCLIPTransformer_encode module_globals argsort_stable
        (\<lambda>batch projection. Inr batch)
        [PyStr ''a''] 32 (PyBool True) (PyBool True) (PyBool True)
     = ([], Inl NameError)"
  by (simp add: WrappedHuggingfaceTransformer_encode_def hf_all_embeddings_def
      hf_sort_stage_def WrappedHuggingfaceTransformer_text_length_def
      WrappedOpenCLIPTransformer_encode_def clip_all_embeddings_def clip_sort_stage_def
      WrappedOpenCLIPTransformer_text_length_def clip_iterator_def tqdm_unbound
      argsort_stable_def py_getitem_def py_range0_def py_slice_def torch_stack_def upt_rec Let_def)

end
